theory Spec2Isabelle
  imports Complex_Main "HOL-Library.Stream" "HOL-Library.Multiset"
begin

section \<open>Pairwise-constraint generators and clustering accuracy of \<^verbatim>\<open>utils_xiang.py\<close>\<close>

text \<open>
  The module \<^verbatim>\<open>utils_xiang.py\<close> holds six rejection-sampling generators of
  must-link / cannot-link index pairs and the accuracy evaluator \<^verbatim>\<open>cluster_acc\<close>.
  The embedding below follows the source function by function.

  \<^item> Python integers are \<open>int\<close>; floats are modelled as \<open>real\<close>. The two library
    routines that compute distances in floating point are parameters of the model.
  \<^item> The process-wide generator of the \<^verbatim>\<open>random\<close> module is a stream of naturals,
    one element per draw; the generator of \<^verbatim>\<open>numpy.random\<close> is a second stream.
  \<^item> A raised exception is \<open>Inl\<close> of the result; a \<^verbatim>\<open>while\<close> loop that may run
    forever is a \<open>partial_function\<close> in the option monad whose value \<open>None\<close> means
    that the loop never returns.
\<close>

subsection \<open>Library calls\<close>

datatype py_error = IndexError | ValueError | AssertionError

type_synonym rng = "nat stream"

text \<open>\<^verbatim>\<open>random.choice(seq)\<close>: raises IndexError on an empty sequence.\<close>

definition random_choice :: "rng \<Rightarrow> 'a list \<Rightarrow> py_error + ('a \<times> rng)" where
  "random_choice g xs =
     (if xs = [] then Inl IndexError
      else Inr (xs ! (shd g mod length xs), stl g))"

text \<open>\<^verbatim>\<open>random.randint(a, b)\<close>: an integer of \<open>[a, b]\<close>; raises ValueError when the
  range is empty.\<close>

definition random_randint :: "rng \<Rightarrow> int \<Rightarrow> int \<Rightarrow> py_error + (int \<times> rng)" where
  "random_randint g a b =
     (if b < a then Inl ValueError
      else Inr (a + int (shd g mod nat (b - a + 1)), stl g))"

text \<open>Indexing a one-dimensional array: a negative index counts from the end, an index
  out of range raises IndexError.\<close>

definition np_index :: "'a list \<Rightarrow> int \<Rightarrow> py_error + 'a" where
  "np_index xs i =
     (if 0 \<le> i \<and> i < int (length xs) then Inr (xs ! nat i)
      else if - int (length xs) \<le> i \<and> i < 0 then Inr (xs ! nat (int (length xs) + i))
      else Inl IndexError)"

text \<open>\<^verbatim>\<open>np.random.permutation(n)\<close> shuffles \<^verbatim>\<open>arange(n)\<close> by the Fisher-Yates
  exchange, from the last position down to position 1.\<close>

primrec shuffle_down :: "nat \<Rightarrow> rng \<Rightarrow> nat list \<Rightarrow> nat list \<times> rng" where
  "shuffle_down 0 p xs = (xs, p)"
| "shuffle_down (Suc i) p xs =
     (let j = shd p mod (Suc (Suc i))
      in shuffle_down i (stl p) (xs[Suc i := xs ! j, j := xs ! Suc i]))"

definition np_permutation :: "rng \<Rightarrow> nat \<Rightarrow> nat list \<times> rng" where
  "np_permutation p n = shuffle_down (n - 1) p [0..<n]"

text \<open>\<^verbatim>\<open>a[index]\<close> with an index array.\<close>

definition np_take :: "'a list \<Rightarrow> nat list \<Rightarrow> 'a list" where
  "np_take xs idx = map (\<lambda>i. xs ! i) idx"

subsection \<open>The constraint lists and the duplicate scan\<close>

record pairs =
  ml_ind1 :: "int list"
  ml_ind2 :: "int list"
  cl_ind1 :: "int list"
  cl_ind2 :: "int list"

definition no_pairs :: pairs where
  "no_pairs = \<lparr>ml_ind1 = [], ml_ind2 = [], cl_ind1 = [], cl_ind2 = []\<rparr>"

fun check_ind :: "int \<Rightarrow> int \<Rightarrow> int list \<Rightarrow> int list \<Rightarrow> bool" where
  "check_ind ind1 ind2 (l1 # ind_list1) (l2 # ind_list2) =
     (if ind1 = l1 \<and> ind2 = l2 then True else check_ind ind1 ind2 ind_list1 ind_list2)"
| "check_ind ind1 ind2 _ _ = False"

definition append_ml :: "int \<Rightarrow> int \<Rightarrow> pairs \<Rightarrow> pairs" where
  "append_ml tmp1 tmp2 st =
     st\<lparr>ml_ind1 := ml_ind1 st @ [tmp1], ml_ind2 := ml_ind2 st @ [tmp2]\<rparr>"

definition append_cl :: "int \<Rightarrow> int \<Rightarrow> pairs \<Rightarrow> pairs" where
  "append_cl tmp1 tmp2 st =
     st\<lparr>cl_ind1 := cl_ind1 st @ [tmp1], cl_ind2 := cl_ind2 st @ [tmp2]\<rparr>"

text \<open>The closing lines of every generator: two permutations drawn one after the other,
  the first applied to both must-link arrays, the second to both cannot-link arrays.\<close>

definition permute_pairs :: "rng \<Rightarrow> pairs \<Rightarrow> pairs" where
  "permute_pairs p st =
     (let (ml_index, p1) = np_permutation p (length (ml_ind1 st));
          (cl_index, p2) = np_permutation p1 (length (cl_ind1 st))
      in \<lparr>ml_ind1 = np_take (ml_ind1 st) ml_index,
          ml_ind2 = np_take (ml_ind2 st) ml_index,
          cl_ind1 = np_take (cl_ind1 st) cl_index,
          cl_ind2 = np_take (cl_ind2 st) cl_index\<rparr>)"

subsection \<open>\<^verbatim>\<open>generate_random_pair\<close>\<close>

partial_function (option) random_pair_loop ::
  "int list \<Rightarrow> int list \<Rightarrow> real \<Rightarrow> int \<Rightarrow> rng \<Rightarrow> int \<Rightarrow> int \<Rightarrow> pairs
     \<Rightarrow> (py_error + pairs \<times> int) option" where
  "random_pair_loop y label_cell_indx error_rate num0 g num error_num st =
     (if num > 0 then
        (case random_choice g label_cell_indx of
           Inl e \<Rightarrow> Some (Inl e)
         | Inr (tmp1, g1) \<Rightarrow>
        (case random_choice g1 label_cell_indx of
           Inl e \<Rightarrow> Some (Inl e)
         | Inr (tmp2, g2) \<Rightarrow>
           if tmp1 = tmp2 then
             random_pair_loop y label_cell_indx error_rate num0 g2 num error_num st
           else if check_ind tmp1 tmp2 (ml_ind1 st) (ml_ind2 st) then
             random_pair_loop y label_cell_indx error_rate num0 g2 num error_num st
           else
             (case np_index y tmp1 of
                Inl e \<Rightarrow> Some (Inl e)
              | Inr y1 \<Rightarrow>
             (case np_index y tmp2 of
                Inl e \<Rightarrow> Some (Inl e)
              | Inr y2 \<Rightarrow>
                if y1 = y2 then
                  if real_of_int error_num \<ge> error_rate * real_of_int num0 then
                    random_pair_loop y label_cell_indx error_rate num0 g2 (num - 1)
                      error_num (append_ml tmp1 tmp2 st)
                  else
                    random_pair_loop y label_cell_indx error_rate num0 g2 (num - 1)
                      (error_num + 1) (append_cl tmp1 tmp2 st)
                else
                  if real_of_int error_num \<ge> error_rate * real_of_int num0 then
                    random_pair_loop y label_cell_indx error_rate num0 g2 (num - 1)
                      error_num (append_cl tmp1 tmp2 st)
                  else
                    random_pair_loop y label_cell_indx error_rate num0 g2 (num - 1)
                      (error_num + 1) (append_ml tmp1 tmp2 st)))))
      else Some (Inr (st, error_num)))"

text \<open>Lines 39-74: the lists as they stand when the loop ends.\<close>

definition random_pair_sampling ::
  "rng \<Rightarrow> int list \<Rightarrow> int list \<Rightarrow> int \<Rightarrow> real \<Rightarrow> (py_error + pairs \<times> int) option" where
  "random_pair_sampling g y label_cell_indx num error_rate =
     random_pair_loop y label_cell_indx error_rate num g num 0 no_pairs"

text \<open>Lines 75-82: the permutations and the return.\<close>

definition generate_random_pair ::
  "rng \<Rightarrow> rng \<Rightarrow> int list \<Rightarrow> int list \<Rightarrow> int \<Rightarrow> real \<Rightarrow> (py_error + pairs \<times> int) option" where
  "generate_random_pair g p y label_cell_indx num error_rate =
     (case random_pair_sampling g y label_cell_indx num error_rate of
        None \<Rightarrow> None
      | Some (Inl e) \<Rightarrow> Some (Inl e)
      | Some (Inr (st, error_num)) \<Rightarrow> Some (Inr (permute_pairs p st, error_num)))"

subsection \<open>Arrays, quantiles and float comparisons\<close>

text \<open>A two-dimensional numpy array is rectangular: its shape and its cells.\<close>

record ndarray2 =
  shape0 :: nat
  shape1 :: nat
  cell :: "nat \<Rightarrow> nat \<Rightarrow> real"

text \<open>\<^verbatim>\<open>a[r]\<close> and \<^verbatim>\<open>a[r, :]\<close>: row \<open>r\<close>, a negative \<open>r\<close> counting from the end.\<close>

definition np_row_index :: "ndarray2 \<Rightarrow> int \<Rightarrow> py_error + nat" where
  "np_row_index a r =
     (if 0 \<le> r \<and> r < int (shape0 a) then Inr (nat r)
      else if - int (shape0 a) \<le> r \<and> r < 0 then Inr (nat (int (shape0 a) + r))
      else Inl IndexError)"

definition row_of :: "ndarray2 \<Rightarrow> nat \<Rightarrow> real list" where
  "row_of a r = map (cell a r) [0..<shape1 a]"

definition np_row :: "ndarray2 \<Rightarrow> int \<Rightarrow> py_error + real list" where
  "np_row a r = (case np_row_index a r of Inl e \<Rightarrow> Inl e | Inr j \<Rightarrow> Inr (row_of a j))"

text \<open>A float that may be \<^verbatim>\<open>nan\<close> is \<open>real option\<close>, \<open>None\<close> being \<^verbatim>\<open>nan\<close>; every
  comparison with \<^verbatim>\<open>nan\<close> is false.\<close>

definition flt :: "real \<Rightarrow> real option \<Rightarrow> bool" where
  "flt x c = (case c of None \<Rightarrow> False | Some v \<Rightarrow> x < v)"

definition fgt :: "real \<Rightarrow> real option \<Rightarrow> bool" where
  "fgt x c = (case c of None \<Rightarrow> False | Some v \<Rightarrow> x > v)"

definition fle :: "real \<Rightarrow> real option \<Rightarrow> bool" where
  "fle x c = (case c of None \<Rightarrow> False | Some v \<Rightarrow> x \<le> v)"

text \<open>\<^verbatim>\<open>np.quantile(a, q)\<close> with the default linear interpolation: ValueError for
  \<open>q\<close> outside \<open>[0, 1]\<close>, \<^verbatim>\<open>nan\<close> for an empty array. \<^verbatim>\<open>np.percentile(a, q)\<close>
  is the same for \<open>q\<close> in \<open>[0, 100]\<close>.\<close>

definition np_quantile :: "real list \<Rightarrow> real \<Rightarrow> py_error + real option" where
  "np_quantile a q =
     (if q < 0 \<or> 1 < q then Inl ValueError
      else if a = [] then Inr None
      else
        (let s = sort a;
             h = q * real (length a - 1);
             lo = nat \<lfloor>h\<rfloor>;
             hi = nat \<lceil>h\<rceil>
         in Inr (Some (s ! lo + (h - real lo) * (s ! hi - s ! lo)))))"

definition np_percentile :: "real list \<Rightarrow> real \<Rightarrow> py_error + real option" where
  "np_percentile a q = np_quantile a (q / 100)"

definition bind_err :: "py_error + 'a \<Rightarrow> ('a \<Rightarrow> py_error + 'b) \<Rightarrow> py_error + 'b" where
  "bind_err r f = (case r of Inl e \<Rightarrow> Inl e | Inr v \<Rightarrow> f v)"

text \<open>The two distance routines are library code that works in floating point, and
  their results need not agree: \<^verbatim>\<open>euclidean_distances(a, a)\<close> of scikit-learn fills
  the matrix from which the cutoffs are taken, \<^verbatim>\<open>norm(u - v, 2)\<close> of scipy is what
  the loop compares. Both are parameters of the model, and nothing is assumed of them:
  \<open>euclidean_distances a i j\<close> is the entry \<open>(i, j)\<close> of the matrix returned for \<open>a\<close>,
  and \<open>norm2 u v\<close> is the value returned for the rows \<open>u\<close> and \<open>v\<close>.\<close>

type_synonym distance_matrix = "ndarray2 \<Rightarrow> nat \<Rightarrow> nat \<Rightarrow> real"

type_synonym row_distance = "real list \<Rightarrow> real list \<Rightarrow> real"

text \<open>The exact Euclidean distance, which both routines return on inputs where no
  rounding occurs, such as the example embedding below.\<close>

definition norm2_diff :: row_distance where
  "norm2_diff u v = sqrt (\<Sum>(a, b)\<leftarrow>zip u v. (a - b)\<^sup>2)"

definition exact_distances :: distance_matrix where
  "exact_distances a i j = norm2_diff (row_of a i) (row_of a j)"

text \<open>Lines 98-103: the matrix \<open>latent_dist\<close> of \<open>n\<close> rows, its strictly lower triangle
  (\<^verbatim>\<open>np.tril(latent_dist, -1)\<close> puts zero elsewhere), flattened row by row, the
  positive entries, and the two quantiles. \<^verbatim>\<open>euclidean_distances\<close> refuses an array
  without rows or without columns.\<close>

definition latent_dist_vec :: "(nat \<Rightarrow> nat \<Rightarrow> real) \<Rightarrow> nat \<Rightarrow> real list" where
  "latent_dist_vec latent_dist n =
     filter (\<lambda>d. d > 0)
       (concat (map (\<lambda>i. map (\<lambda>j. if j < i then latent_dist i j else 0) [0..<n]) [0..<n]))"

definition dist_cutoffs ::
  "distance_matrix \<Rightarrow> ndarray2 \<Rightarrow> real \<Rightarrow> real \<Rightarrow> py_error + real option \<times> real option" where
  "dist_cutoffs euclidean_distances a ML CL =
     (if shape0 a = 0 \<or> shape1 a = 0 then Inl ValueError
      else bind_err (np_quantile (latent_dist_vec (euclidean_distances a) (shape0 a)) ML)
             (\<lambda>cutoff_ML.
           bind_err (np_quantile (latent_dist_vec (euclidean_distances a) (shape0 a)) CL)
             (\<lambda>cutoff_CL.
           Inr (cutoff_ML, cutoff_CL))))"

subsection \<open>The loop shared by three generators\<close>

text \<open>The loops of \<^verbatim>\<open>generate_random_pair_from_proteins\<close> (lines 105-120),
  \<^verbatim>\<open>generate_random_pair_from_CD_markers\<close> (lines 263-293) and
  \<^verbatim>\<open>generate_random_pair_from_embedding_clustering\<close> (lines 328-343) are the same
  text around different \<^verbatim>\<open>if\<close>/\<^verbatim>\<open>elif\<close> chains: two draws from \<open>[0, n - 1]\<close>, the
  self-pair test, the duplicate scan of the must-link lists, the chain, and
  \<^verbatim>\<open>num -= 1\<close> after an append. The chain is the parameter \<open>decide\<close>.\<close>

datatype decision = MustLink | CannotLink | Reject

partial_function (option) sample_loop ::
  "(int \<Rightarrow> int \<Rightarrow> decision) \<Rightarrow> nat \<Rightarrow> rng \<Rightarrow> int \<Rightarrow> pairs \<Rightarrow> (py_error + pairs) option" where
  "sample_loop decide n g num st =
     (if num > 0 then
        (case random_randint g 0 (int n - 1) of
           Inl e \<Rightarrow> Some (Inl e)
         | Inr (tmp1, g1) \<Rightarrow>
        (case random_randint g1 0 (int n - 1) of
           Inl e \<Rightarrow> Some (Inl e)
         | Inr (tmp2, g2) \<Rightarrow>
           if tmp1 = tmp2 then sample_loop decide n g2 num st
           else if check_ind tmp1 tmp2 (ml_ind1 st) (ml_ind2 st) then
             sample_loop decide n g2 num st
           else
             (case decide tmp1 tmp2 of
                MustLink \<Rightarrow> sample_loop decide n g2 (num - 1) (append_ml tmp1 tmp2 st)
              | CannotLink \<Rightarrow> sample_loop decide n g2 (num - 1) (append_cl tmp1 tmp2 st)
              | Reject \<Rightarrow> sample_loop decide n g2 num st)))
      else Some (Inr st))"

text \<open>The closing lines applied to the outcome of a loop.\<close>

definition finish :: "rng \<Rightarrow> (py_error + pairs) option \<Rightarrow> (py_error + pairs) option" where
  "finish p r =
     (case r of
        None \<Rightarrow> None
      | Some (Inl e) \<Rightarrow> Some (Inl e)
      | Some (Inr st) \<Rightarrow> Some (Inr (permute_pairs p st)))"

subsection \<open>\<^verbatim>\<open>generate_random_pair_from_proteins\<close>\<close>

text \<open>Each generator is written in two parts: \<open>\<dots>_sampling\<close> is the function up to the
  end of its loop, and the generator applies the closing lines to it.\<close>

definition decide_proteins ::
  "row_distance \<Rightarrow> ndarray2 \<Rightarrow> real option \<Rightarrow> real option \<Rightarrow> int \<Rightarrow> int \<Rightarrow> decision" where
  "decide_proteins norm2 latent_embedding cutoff_ML cutoff_CL tmp1 tmp2 =
     (if flt (norm2 (row_of latent_embedding (nat tmp1)) (row_of latent_embedding (nat tmp2)))
             cutoff_ML then MustLink
      else if fgt (norm2 (row_of latent_embedding (nat tmp1)) (row_of latent_embedding (nat tmp2)))
             cutoff_CL then CannotLink
      else Reject)"

definition proteins_sampling ::
  "distance_matrix \<Rightarrow> row_distance \<Rightarrow> rng \<Rightarrow> ndarray2 \<Rightarrow> int \<Rightarrow> real \<Rightarrow> real
     \<Rightarrow> (py_error + pairs) option" where
  "proteins_sampling euclidean_distances norm2 g latent_embedding num ML CL =
     (case dist_cutoffs euclidean_distances latent_embedding ML CL of
        Inl e \<Rightarrow> Some (Inl e)
      | Inr (cutoff_ML, cutoff_CL) \<Rightarrow>
          sample_loop (decide_proteins norm2 latent_embedding cutoff_ML cutoff_CL)
            (shape0 latent_embedding) g num no_pairs)"

definition generate_random_pair_from_proteins ::
  "distance_matrix \<Rightarrow> row_distance \<Rightarrow> rng \<Rightarrow> rng \<Rightarrow> ndarray2 \<Rightarrow> int \<Rightarrow> real \<Rightarrow> real
     \<Rightarrow> (py_error + pairs) option" where
  "generate_random_pair_from_proteins euclidean_distances norm2 g p latent_embedding num ML CL =
     finish p (proteins_sampling euclidean_distances norm2 g latent_embedding num ML CL)"

subsection \<open>\<^verbatim>\<open>generate_random_pair_from_embedding_clustering\<close>\<close>

text \<open>The k-means labels \<^verbatim>\<open>kmeans.fit(latent_embedding).labels_\<close>, one per row, are
  the parameter \<open>y_pred\<close>.\<close>

definition decide_embedding_clustering ::
  "row_distance \<Rightarrow> ndarray2 \<Rightarrow> (nat \<Rightarrow> int) \<Rightarrow> real option \<Rightarrow> int \<Rightarrow> int \<Rightarrow> decision" where
  "decide_embedding_clustering norm2 latent_embedding y_pred cutoff_CL tmp1 tmp2 =
     (if y_pred (nat tmp1) = y_pred (nat tmp2) then MustLink
      else if y_pred (nat tmp1) \<noteq> y_pred (nat tmp2) \<and>
              fgt (norm2 (row_of latent_embedding (nat tmp1)) (row_of latent_embedding (nat tmp2)))
                  cutoff_CL then CannotLink
      else Reject)"

definition embedding_clustering_sampling ::
  "distance_matrix \<Rightarrow> row_distance \<Rightarrow> rng \<Rightarrow> ndarray2 \<Rightarrow> (nat \<Rightarrow> int) \<Rightarrow> int \<Rightarrow> real \<Rightarrow> real
     \<Rightarrow> (py_error + pairs) option" where
  "embedding_clustering_sampling euclidean_distances norm2 g latent_embedding y_pred num ML CL =
     (case dist_cutoffs euclidean_distances latent_embedding ML CL of
        Inl e \<Rightarrow> Some (Inl e)
      | Inr (cutoff_ML, cutoff_CL) \<Rightarrow>
          sample_loop (decide_embedding_clustering norm2 latent_embedding y_pred cutoff_CL)
            (shape0 latent_embedding) g num no_pairs)"

definition generate_random_pair_from_embedding_clustering ::
  "distance_matrix \<Rightarrow> row_distance \<Rightarrow> rng \<Rightarrow> rng \<Rightarrow> ndarray2 \<Rightarrow> (nat \<Rightarrow> int) \<Rightarrow> int \<Rightarrow> real
     \<Rightarrow> real \<Rightarrow> (py_error + pairs) option" where
  "generate_random_pair_from_embedding_clustering euclidean_distances norm2 g p latent_embedding
       y_pred num ML CL =
     finish p (embedding_clustering_sampling euclidean_distances norm2 g latent_embedding
                 y_pred num ML CL)"

subsection \<open>\<^verbatim>\<open>generate_random_pair_from_two_CDs\<close>\<close>

type_synonym two_CDs_cutoffs = "real option \<times> real option \<times> real option \<times> real option"

definition two_CDs_thresholds :: "ndarray2 \<Rightarrow> real \<Rightarrow> real \<Rightarrow> py_error + two_CDs_cutoffs" where
  "two_CDs_thresholds latent_embedding LC HC =
     bind_err (np_row latent_embedding 0) (\<lambda>r0.
     bind_err (np_percentile r0 LC) (\<lambda>lc1.
     bind_err (np_row latent_embedding 1) (\<lambda>r1.
     bind_err (np_percentile r1 LC) (\<lambda>lc2.
     bind_err (np_percentile r0 HC) (\<lambda>mc1.
     bind_err (np_percentile r1 HC) (\<lambda>mc2.
     Inr (lc1, lc2, mc1, mc2)))))))"

fun decide_two_CDs :: "ndarray2 \<Rightarrow> two_CDs_cutoffs \<Rightarrow> int \<Rightarrow> int \<Rightarrow> decision" where
  "decide_two_CDs latent_embedding (lc1, lc2, mc1, mc2) tmp1 tmp2 =
     (if (fgt (cell latent_embedding 0 (nat tmp1)) mc1 \<and> fgt (cell latent_embedding 0 (nat tmp2)) mc1) \<and>
         (fle (cell latent_embedding 1 (nat tmp1)) lc2 \<and> fle (cell latent_embedding 1 (nat tmp2)) lc2)
      then MustLink
      else if (fle (cell latent_embedding 0 (nat tmp1)) lc1 \<and> fle (cell latent_embedding 0 (nat tmp2)) lc1) \<and>
         (fgt (cell latent_embedding 1 (nat tmp1)) mc2 \<and> fgt (cell latent_embedding 1 (nat tmp2)) mc2)
      then MustLink
      else if (fgt (cell latent_embedding 0 (nat tmp1)) mc1 \<and> fle (cell latent_embedding 1 (nat tmp1)) lc2) \<and>
         (fle (cell latent_embedding 0 (nat tmp2)) lc1 \<and> fgt (cell latent_embedding 1 (nat tmp2)) mc2)
      then CannotLink
      else if (fle (cell latent_embedding 0 (nat tmp1)) lc1 \<and> fgt (cell latent_embedding 1 (nat tmp1)) mc2) \<and>
         (fgt (cell latent_embedding 0 (nat tmp2)) mc1 \<and> fle (cell latent_embedding 1 (nat tmp2)) lc2)
      then CannotLink
      else Reject)"

definition two_CDs_cap :: nat where
  "two_CDs_cap = 20000\<^sup>2"

partial_function (option) two_CDs_loop ::
  "ndarray2 \<Rightarrow> two_CDs_cutoffs \<Rightarrow> rng \<Rightarrow> int \<Rightarrow> nat \<Rightarrow> pairs \<Rightarrow> (py_error + pairs) option" where
  "two_CDs_loop latent_embedding c g num k st =
     (if num > 0 \<and> k < two_CDs_cap then
        (case random_randint g 0 (int (shape1 latent_embedding) - 1) of
           Inl e \<Rightarrow> Some (Inl e)
         | Inr (tmp1, g1) \<Rightarrow>
        (case random_randint g1 0 (int (shape1 latent_embedding) - 1) of
           Inl e \<Rightarrow> Some (Inl e)
         | Inr (tmp2, g2) \<Rightarrow>
           if tmp1 = tmp2 then two_CDs_loop latent_embedding c g2 num (k + 1) st
           else if check_ind tmp1 tmp2 (ml_ind1 st) (ml_ind2 st) then
             two_CDs_loop latent_embedding c g2 num (k + 1) st
           else
             (case decide_two_CDs latent_embedding c tmp1 tmp2 of
                MustLink \<Rightarrow>
                  two_CDs_loop latent_embedding c g2 (num - 1) (k + 1) (append_ml tmp1 tmp2 st)
              | CannotLink \<Rightarrow>
                  two_CDs_loop latent_embedding c g2 (num - 1) (k + 1) (append_cl tmp1 tmp2 st)
              | Reject \<Rightarrow> two_CDs_loop latent_embedding c g2 num (k + 1) st)))
      else Some (Inr st))"

definition two_CDs_sampling ::
  "rng \<Rightarrow> ndarray2 \<Rightarrow> int \<Rightarrow> real \<Rightarrow> real \<Rightarrow> (py_error + pairs) option" where
  "two_CDs_sampling g latent_embedding num LC HC =
     (case two_CDs_thresholds latent_embedding LC HC of
        Inl e \<Rightarrow> Some (Inl e)
      | Inr c \<Rightarrow> two_CDs_loop latent_embedding c g num 0 no_pairs)"

definition generate_random_pair_from_two_CDs ::
  "rng \<Rightarrow> rng \<Rightarrow> ndarray2 \<Rightarrow> int \<Rightarrow> real \<Rightarrow> real \<Rightarrow> (py_error + pairs) option" where
  "generate_random_pair_from_two_CDs g p latent_embedding num LC HC =
     finish p (two_CDs_sampling g latent_embedding num LC HC)"

subsection \<open>\<^verbatim>\<open>generate_random_pair_from_one_CD\<close>\<close>

text \<open>\<^verbatim>\<open>num1 = num/2\<close> is Python 3's true division: the two budgets are halves.\<close>

definition one_CD_cap :: nat where
  "one_CD_cap = 1000000"

partial_function (option) one_CD_loop ::
  "ndarray2 \<Rightarrow> nat \<Rightarrow> real option \<Rightarrow> real option \<Rightarrow> rng \<Rightarrow> real \<Rightarrow> real \<Rightarrow> nat \<Rightarrow> pairs
     \<Rightarrow> (py_error + pairs) option" where
  "one_CD_loop latent_embedding gene lc1 mc1 g num1 num2 k st =
     (if (num1 > 0 \<or> num2 > 0) \<and> k < one_CD_cap then
        (case random_randint g 0 (int (shape1 latent_embedding) - 1) of
           Inl e \<Rightarrow> Some (Inl e)
         | Inr (tmp1, g1) \<Rightarrow>
        (case random_randint g1 0 (int (shape1 latent_embedding) - 1) of
           Inl e \<Rightarrow> Some (Inl e)
         | Inr (tmp2, g2) \<Rightarrow>
           if tmp1 = tmp2 then
             one_CD_loop latent_embedding gene lc1 mc1 g2 num1 num2 (k + 1) st
           else if check_ind tmp1 tmp2 (ml_ind1 st) (ml_ind2 st) then
             one_CD_loop latent_embedding gene lc1 mc1 g2 num1 num2 (k + 1) st
           else if (fgt (cell latent_embedding gene (nat tmp1)) mc1 \<and>
                    fgt (cell latent_embedding gene (nat tmp2)) mc1) \<and> num1 > 0 then
             one_CD_loop latent_embedding gene lc1 mc1 g2 (num1 - 1) num2 (k + 1)
               (append_ml tmp1 tmp2 st)
           else if (fgt (cell latent_embedding gene (nat tmp1)) mc1 \<and>
                    fle (cell latent_embedding gene (nat tmp2)) lc1) \<and> num2 > 0 then
             one_CD_loop latent_embedding gene lc1 mc1 g2 num1 (num2 - 1) (k + 1)
               (append_cl tmp1 tmp2 st)
           else if (fle (cell latent_embedding gene (nat tmp1)) lc1 \<and>
                    fgt (cell latent_embedding gene (nat tmp2)) mc1) \<and> num2 > 0 then
             one_CD_loop latent_embedding gene lc1 mc1 g2 num1 (num2 - 1) (k + 1)
               (append_cl tmp1 tmp2 st)
           else one_CD_loop latent_embedding gene lc1 mc1 g2 num1 num2 (k + 1) st))
      else Some (Inr st))"

definition one_CD_sampling ::
  "rng \<Rightarrow> ndarray2 \<Rightarrow> int \<Rightarrow> real \<Rightarrow> real \<Rightarrow> int \<Rightarrow> (py_error + pairs) option" where
  "one_CD_sampling g latent_embedding num LC HC gene =
     (case np_row_index latent_embedding gene of
        Inl e \<Rightarrow> Some (Inl e)
      | Inr r \<Rightarrow>
     (case np_percentile (row_of latent_embedding r) LC of
        Inl e \<Rightarrow> Some (Inl e)
      | Inr lc1 \<Rightarrow>
     (case np_percentile (row_of latent_embedding r) HC of
        Inl e \<Rightarrow> Some (Inl e)
      | Inr mc1 \<Rightarrow>
          one_CD_loop latent_embedding r lc1 mc1 g
            (real_of_int num / 2) (real_of_int num / 2) 0 no_pairs)))"

definition generate_random_pair_from_one_CD ::
  "rng \<Rightarrow> rng \<Rightarrow> ndarray2 \<Rightarrow> int \<Rightarrow> real \<Rightarrow> real \<Rightarrow> int \<Rightarrow> (py_error + pairs) option" where
  "generate_random_pair_from_one_CD g p latent_embedding num LC HC gene =
     finish p (one_CD_sampling g latent_embedding num LC HC gene)"

subsection \<open>\<^verbatim>\<open>generate_random_pair_from_CD_markers\<close>\<close>

record marker_cutoffs =
  gene_low1 :: "real option"
  gene_high1 :: "real option"
  gene_low2 :: "real option"
  gene_high2 :: "real option"
  gene_low1_ml :: "real option"
  gene_high1_ml :: "real option"
  gene_low2_ml :: "real option"
  gene_high2_ml :: "real option"
  gene_low3 :: "real option"
  gene_high3 :: "real option"
  gene_low4 :: "real option"
  gene_high4 :: "real option"

definition marker_thresholds ::
  "ndarray2 \<Rightarrow> real \<Rightarrow> real \<Rightarrow> real \<Rightarrow> real \<Rightarrow> py_error + marker_cutoffs" where
  "marker_thresholds markers low1 high1 low2 high2 =
     bind_err (np_row markers 0) (\<lambda>m0.
     bind_err (np_quantile m0 low1) (\<lambda>l1.
     bind_err (np_quantile m0 high1) (\<lambda>h1.
     bind_err (np_row markers 1) (\<lambda>m1.
     bind_err (np_quantile m1 low1) (\<lambda>l2.
     bind_err (np_quantile m1 high1) (\<lambda>h2.
     bind_err (np_quantile m0 low2) (\<lambda>l1_ml.
     bind_err (np_quantile m0 high2) (\<lambda>h1_ml.
     bind_err (np_quantile m1 low2) (\<lambda>l2_ml.
     bind_err (np_quantile m1 high2) (\<lambda>h2_ml.
     bind_err (np_row markers 2) (\<lambda>m2.
     bind_err (np_quantile m2 low2) (\<lambda>l3.
     bind_err (np_quantile m2 high2) (\<lambda>h3.
     bind_err (np_row markers 3) (\<lambda>m3.
     bind_err (np_quantile m3 low2) (\<lambda>l4.
     bind_err (np_quantile m3 high2) (\<lambda>h4.
     Inr \<lparr>gene_low1 = l1, gene_high1 = h1, gene_low2 = l2, gene_high2 = h2,
          gene_low1_ml = l1_ml, gene_high1_ml = h1_ml, gene_low2_ml = l2_ml,
          gene_high2_ml = h2_ml, gene_low3 = l3, gene_high3 = h3,
          gene_low4 = l4, gene_high4 = h4\<rparr>))))))))))))))))"

text \<open>The conditions of the \<^verbatim>\<open>if\<close>/\<^verbatim>\<open>elif\<close> chain, in the order of the source, each
  named after its line.\<close>

definition cond_270 :: "ndarray2 \<Rightarrow> marker_cutoffs \<Rightarrow> int \<Rightarrow> int \<Rightarrow> bool" where
  "cond_270 markers q tmp1 tmp2 \<longleftrightarrow>
      flt (cell markers 0 (nat tmp1)) (gene_low1 q) \<and>
      fgt (cell markers 1 (nat tmp1)) (gene_high2 q) \<and>
      fgt (cell markers 0 (nat tmp2)) (gene_high1 q) \<and>
      flt (cell markers 1 (nat tmp2)) (gene_low2 q)"

definition cond_273 :: "ndarray2 \<Rightarrow> marker_cutoffs \<Rightarrow> int \<Rightarrow> int \<Rightarrow> bool" where
  "cond_273 markers q tmp1 tmp2 \<longleftrightarrow>
      flt (cell markers 0 (nat tmp2)) (gene_low1 q) \<and>
      fgt (cell markers 1 (nat tmp2)) (gene_high2 q) \<and>
      fgt (cell markers 0 (nat tmp1)) (gene_high1 q) \<and>
      flt (cell markers 1 (nat tmp1)) (gene_low2 q)"

definition cond_276 :: "ndarray2 \<Rightarrow> marker_cutoffs \<Rightarrow> int \<Rightarrow> int \<Rightarrow> bool" where
  "cond_276 markers q tmp1 tmp2 \<longleftrightarrow>
      fgt (cell markers 1 (nat tmp1)) (gene_high2_ml q) \<and>
      fgt (cell markers 2 (nat tmp1)) (gene_high3 q) \<and>
      fgt (cell markers 1 (nat tmp2)) (gene_high2_ml q) \<and>
      fgt (cell markers 2 (nat tmp2)) (gene_high3 q)"

definition cond_279 :: "ndarray2 \<Rightarrow> marker_cutoffs \<Rightarrow> int \<Rightarrow> int \<Rightarrow> bool" where
  "cond_279 markers q tmp1 tmp2 \<longleftrightarrow>
      fgt (cell markers 1 (nat tmp1)) (gene_high2_ml q) \<and>
      flt (cell markers 2 (nat tmp1)) (gene_low3 q) \<and>
      fgt (cell markers 1 (nat tmp2)) (gene_high2_ml q) \<and>
      flt (cell markers 2 (nat tmp2)) (gene_low3 q)"

definition cond_282 :: "ndarray2 \<Rightarrow> marker_cutoffs \<Rightarrow> int \<Rightarrow> int \<Rightarrow> bool" where
  "cond_282 markers q tmp1 tmp2 \<longleftrightarrow>
      fgt (cell markers 0 (nat tmp1)) (gene_high1_ml q) \<and>
      fgt (cell markers 2 (nat tmp1)) (gene_high3 q) \<and>
      fgt (cell markers 1 (nat tmp2)) (gene_high1_ml q) \<and>
      fgt (cell markers 2 (nat tmp2)) (gene_high3 q)"

definition cond_285 :: "ndarray2 \<Rightarrow> marker_cutoffs \<Rightarrow> int \<Rightarrow> int \<Rightarrow> bool" where
  "cond_285 markers q tmp1 tmp2 \<longleftrightarrow>
      fgt (cell markers 0 (nat tmp1)) (gene_high1_ml q) \<and>
      flt (cell markers 2 (nat tmp1)) (gene_low3 q) \<and>
      fgt (cell markers 3 (nat tmp1)) (gene_high4 q) \<and>
      fgt (cell markers 1 (nat tmp2)) (gene_high1_ml q) \<and>
      flt (cell markers 2 (nat tmp2)) (gene_low3 q) \<and>
      fgt (cell markers 3 (nat tmp2)) (gene_high4 q)"

definition cond_288 :: "ndarray2 \<Rightarrow> marker_cutoffs \<Rightarrow> int \<Rightarrow> int \<Rightarrow> bool" where
  "cond_288 markers q tmp1 tmp2 \<longleftrightarrow>
      fgt (cell markers 0 (nat tmp1)) (gene_high1_ml q) \<and>
      flt (cell markers 2 (nat tmp1)) (gene_low3 q) \<and>
      flt (cell markers 3 (nat tmp1)) (gene_low4 q) \<and>
      fgt (cell markers 1 (nat tmp2)) (gene_high1_ml q) \<and>
      flt (cell markers 2 (nat tmp2)) (gene_low3 q) \<and>
      flt (cell markers 3 (nat tmp2)) (gene_low4 q)"

definition decide_CD_markers :: "ndarray2 \<Rightarrow> marker_cutoffs \<Rightarrow> int \<Rightarrow> int \<Rightarrow> decision" where
  "decide_CD_markers markers q tmp1 tmp2 =
     (if cond_270 markers q tmp1 tmp2 then CannotLink
      else if cond_273 markers q tmp1 tmp2 then CannotLink
      else if cond_276 markers q tmp1 tmp2 then MustLink
      else if cond_279 markers q tmp1 tmp2 then MustLink
      else if cond_282 markers q tmp1 tmp2 then MustLink
      else if cond_285 markers q tmp1 tmp2 then MustLink
      else if cond_288 markers q tmp1 tmp2 then MustLink
      else Reject)"

definition CD_markers_sampling ::
  "rng \<Rightarrow> ndarray2 \<Rightarrow> int \<Rightarrow> real \<Rightarrow> real \<Rightarrow> real \<Rightarrow> real \<Rightarrow> (py_error + pairs) option" where
  "CD_markers_sampling g markers num low1 high1 low2 high2 =
     (case marker_thresholds markers low1 high1 low2 high2 of
        Inl e \<Rightarrow> Some (Inl e)
      | Inr q \<Rightarrow> sample_loop (decide_CD_markers markers q) (shape1 markers) g num no_pairs)"

definition generate_random_pair_from_CD_markers ::
  "rng \<Rightarrow> rng \<Rightarrow> ndarray2 \<Rightarrow> int \<Rightarrow> real \<Rightarrow> real \<Rightarrow> real \<Rightarrow> real \<Rightarrow> (py_error + pairs) option" where
  "generate_random_pair_from_CD_markers g p markers num low1 high1 low2 high2 =
     finish p (CD_markers_sampling g markers num low1 high1 low2 high2)"

text \<open>The chain read as a decision table: its rows in priority order.\<close>

definition marker_table ::
  "((ndarray2 \<Rightarrow> marker_cutoffs \<Rightarrow> int \<Rightarrow> int \<Rightarrow> bool) \<times> decision) list" where
  "marker_table =
     [(cond_270, CannotLink), (cond_273, CannotLink), (cond_276, MustLink),
      (cond_279, MustLink), (cond_282, MustLink), (cond_285, MustLink),
      (cond_288, MustLink)]"

fun first_match ::
  "((ndarray2 \<Rightarrow> marker_cutoffs \<Rightarrow> int \<Rightarrow> int \<Rightarrow> bool) \<times> decision) list
     \<Rightarrow> ndarray2 \<Rightarrow> marker_cutoffs \<Rightarrow> int \<Rightarrow> int \<Rightarrow> decision" where
  "first_match [] markers q tmp1 tmp2 = Reject"
| "first_match ((c, d) # rows) markers q tmp1 tmp2 =
     (if c markers q tmp1 tmp2 then d else first_match rows markers q tmp1 tmp2)"

subsection \<open>\<^verbatim>\<open>cluster_acc\<close>\<close>

text \<open>Label vectors hold non-negative integers, as the indexing \<^verbatim>\<open>w[y_pred[i], y_true[i]]\<close>
  of the source supposes. The loop of lines 28-29 counts the co-occurrences.\<close>

definition bump :: "nat \<Rightarrow> nat \<Rightarrow> int list list \<Rightarrow> int list list" where
  "bump i j w = w[i := (w ! i)[j := w ! i ! j + 1]]"

definition contingency :: "nat \<Rightarrow> nat list \<Rightarrow> nat list \<Rightarrow> int list list" where
  "contingency D y_pred y_true =
     fold (\<lambda>(i, j) w. bump i j w) (zip y_pred y_true) (replicate D (replicate D 0))"

text \<open>\<^verbatim>\<open>linear_assignment\<close> of scikit-learn solves the assignment problem on a square cost
  matrix: it returns the pairs \<open>(row, column)\<close> of a one-to-one assignment of least
  total cost. The model searches all assignments and keeps the first of least cost.\<close>

fun inserts :: "'a \<Rightarrow> 'a list \<Rightarrow> 'a list list" where
  "inserts x [] = [[x]]"
| "inserts x (y # ys) = (x # y # ys) # map ((#) y) (inserts x ys)"

fun perms :: "'a list \<Rightarrow> 'a list list" where
  "perms [] = [[]]"
| "perms (x # xs) = concat (map (inserts x) (perms xs))"

definition assigned_total :: "int list list \<Rightarrow> nat list \<Rightarrow> int" where
  "assigned_total C s = (\<Sum>i\<leftarrow>[0..<length C]. C ! i ! (s ! i))"

definition linear_assignment :: "int list list \<Rightarrow> (nat \<times> nat) list" where
  "linear_assignment C =
     zip [0..<length C] (arg_min_list (assigned_total C) (perms [0..<length C]))"

definition cluster_acc :: "nat list \<Rightarrow> nat list \<Rightarrow> py_error + real" where
  "cluster_acc y_true y_pred =
     (if length y_pred \<noteq> length y_true then Inl AssertionError
      else if y_pred = [] then Inl ValueError
      else
        (let D = max (Max (set y_pred)) (Max (set y_true)) + 1;
             w = contingency D y_pred y_true;
             ind = linear_assignment (map (map (\<lambda>x. Max (set (concat w)) - x)) w)
         in Inr (real_of_int (\<Sum>(i, j)\<leftarrow>ind. w ! i ! j) * 1.0 / real (length y_pred))))"

text \<open>A \<open>D \<times> D\<close> matrix.\<close>

definition square :: "nat \<Rightarrow> int list list \<Rightarrow> bool" where
  "square D w \<longleftrightarrow> length w = D \<and> (\<forall>i < D. length (w ! i) = D)"

text \<open>The number of samples whose predicted label is sent to their true label by \<open>f\<close>.\<close>

definition matches :: "(nat \<Rightarrow> nat) \<Rightarrow> (nat \<times> nat) list \<Rightarrow> nat" where
  "matches f ps = length (filter (\<lambda>(i, j). f i = j) ps)"

text \<open>The numbers of matches that the one-to-one relabellings of \<open>n\<close> labels reach.\<close>

definition reachable :: "nat \<Rightarrow> (nat \<times> nat) list \<Rightarrow> nat set" where
  "reachable n ps = (\<lambda>f. matches f ps) ` {f. bij_betw f {..<n} {..<n}}"

subsection \<open>Properties of constraint lists\<close>

text \<open>The lists are paired, no must-link pair occurs twice, no pair links an index to
  itself, and every index belongs to \<open>S\<close>.\<close>

definition pairs_inv :: "int set \<Rightarrow> pairs \<Rightarrow> bool" where
  "pairs_inv S st \<longleftrightarrow>
     length (ml_ind1 st) = length (ml_ind2 st) \<and>
     length (cl_ind1 st) = length (cl_ind2 st) \<and>
     distinct (zip (ml_ind1 st) (ml_ind2 st)) \<and>
     (\<forall>(i, j) \<in> set (zip (ml_ind1 st) (ml_ind2 st)) \<union> set (zip (cl_ind1 st) (cl_ind2 st)).
        i \<noteq> j \<and> i \<in> S \<and> j \<in> S)"

text \<open>No listed pair, must-link or cannot-link, links an index to itself.\<close>

definition no_self_pair :: "pairs \<Rightarrow> bool" where
  "no_self_pair r \<longleftrightarrow>
     (\<forall>(i, j) \<in> set (zip (ml_ind1 r) (ml_ind2 r)) \<union> set (zip (cl_ind1 r) (cl_ind2 r)). i \<noteq> j)"

text \<open>Every entry of the four arrays belongs to \<open>S\<close>.\<close>

definition indices_in :: "int set \<Rightarrow> pairs \<Rightarrow> bool" where
  "indices_in S r \<longleftrightarrow>
     set (ml_ind1 r) \<union> set (ml_ind2 r) \<union> set (cl_ind1 r) \<union> set (cl_ind2 r) \<subseteq> S"

text \<open>The number of constraints listed.\<close>

definition total_pairs :: "pairs \<Rightarrow> int" where
  "total_pairs r = int (length (ml_ind1 r)) + int (length (cl_ind1 r))"

text \<open>Every listed pair is one that the chain sends to its list.\<close>

definition decided :: "(int \<Rightarrow> int \<Rightarrow> decision) \<Rightarrow> pairs \<Rightarrow> bool" where
  "decided decide st \<longleftrightarrow>
     length (ml_ind1 st) = length (ml_ind2 st) \<and>
     length (cl_ind1 st) = length (cl_ind2 st) \<and>
     (\<forall>(i, j) \<in> set (zip (ml_ind1 st) (ml_ind2 st)). decide i j = MustLink) \<and>
     (\<forall>(i, j) \<in> set (zip (cl_ind1 st) (cl_ind2 st)). decide i j = CannotLink)"

text \<open>\<open>r\<close> holds the pairs of \<open>st\<close>, each list in some other order, the two arrays of a
  list still aligned.\<close>

definition permutation_of :: "pairs \<Rightarrow> pairs \<Rightarrow> bool" where
  "permutation_of r st \<longleftrightarrow>
     length (ml_ind1 r) = length (ml_ind2 r) \<and>
     length (cl_ind1 r) = length (cl_ind2 r) \<and>
     mset (zip (ml_ind1 r) (ml_ind2 r)) = mset (zip (ml_ind1 st) (ml_ind2 st)) \<and>
     mset (zip (cl_ind1 r) (cl_ind2 r)) = mset (zip (cl_ind1 st) (cl_ind2 st))"

subsection \<open>Example inputs\<close>

text \<open>Three points on a line, as a \<open>3 \<times> 1\<close> embedding.\<close>

definition line3 :: ndarray2 where
  "line3 = \<lparr>shape0 = 3, shape1 = 1, cell = (\<lambda>r c. [[0], [1], [2]] ! r ! c)\<rparr>"

text \<open>Four cells in two opposite quadrants, as a \<open>2 \<times> 4\<close> embedding.\<close>

definition quad4 :: ndarray2 where
  "quad4 = \<lparr>shape0 = 2, shape1 = 4,
            cell = (\<lambda>r c. [[5, 5, 0, 0], [0, 0, 5, 5]] ! r ! c)\<rparr>"

text \<open>Four cells with rising expression of one gene.\<close>

definition ramp4 :: ndarray2 where
  "ramp4 = \<lparr>shape0 = 1, shape1 = 4, cell = (\<lambda>r c. [[0, 1, 2, 3]] ! r ! c)\<rparr>"

text \<open>Four marker genes over three cells.\<close>

definition markers3 :: ndarray2 where
  "markers3 = \<lparr>shape0 = 4, shape1 = 3,
               cell = (\<lambda>r c. [[0, 1, 2], [3, 2, 0], [1, 1, 0], [0, 0, 0]] ! r ! c)\<rparr>"

text \<open>Four marker genes over eleven cells, one matrix for each must-link condition of
  the chain: under the default quantiles the pair \<open>(0, 1)\<close> of \<open>markers_n\<close> meets the
  condition of line \<open>n\<close> and no other. Every row holds the values \<open>0, \<dots>, 10\<close>, so that
  the quantiles \<open>0.2\<close>, \<open>0.4\<close>, \<open>0.6\<close> and \<open>0.8\<close> are the entries \<open>2\<close>, \<open>4\<close>, \<open>6\<close> and \<open>8\<close>.\<close>

definition markers_276 :: ndarray2 where
  "markers_276 = \<lparr>shape0 = 4, shape1 = 11,
     cell = (\<lambda>r c. [[0, 1, 2, 3, 4, 5, 6, 7, 8, 9, 10],
                       [9, 10, 0, 1, 2, 3, 4, 5, 6, 7, 8],
                       [9, 10, 0, 1, 2, 3, 4, 5, 6, 7, 8],
                       [0, 1, 2, 3, 4, 5, 6, 7, 8, 9, 10]] ! r ! c)\<rparr>"

definition markers_279 :: ndarray2 where
  "markers_279 = \<lparr>shape0 = 4, shape1 = 11,
     cell = (\<lambda>r c. [[0, 1, 2, 3, 4, 5, 6, 7, 8, 9, 10],
                       [9, 10, 0, 1, 2, 3, 4, 5, 6, 7, 8],
                       [0, 1, 2, 3, 4, 5, 6, 7, 8, 9, 10],
                       [0, 1, 2, 3, 4, 5, 6, 7, 8, 9, 10]] ! r ! c)\<rparr>"

definition markers_282 :: ndarray2 where
  "markers_282 = \<lparr>shape0 = 4, shape1 = 11,
     cell = (\<lambda>r c. [[9, 10, 0, 1, 2, 3, 4, 5, 6, 7, 8],
                       [0, 9, 1, 2, 3, 4, 5, 6, 7, 8, 10],
                       [9, 10, 0, 1, 2, 3, 4, 5, 6, 7, 8],
                       [0, 1, 2, 3, 4, 5, 6, 7, 8, 9, 10]] ! r ! c)\<rparr>"

definition markers_285 :: ndarray2 where
  "markers_285 = \<lparr>shape0 = 4, shape1 = 11,
     cell = (\<lambda>r c. [[9, 10, 0, 1, 2, 3, 4, 5, 6, 7, 8],
                       [0, 9, 1, 2, 3, 4, 5, 6, 7, 8, 10],
                       [0, 1, 2, 3, 4, 5, 6, 7, 8, 9, 10],
                       [9, 10, 0, 1, 2, 3, 4, 5, 6, 7, 8]] ! r ! c)\<rparr>"

definition markers_288 :: ndarray2 where
  "markers_288 = \<lparr>shape0 = 4, shape1 = 11,
     cell = (\<lambda>r c. [[9, 10, 0, 1, 2, 3, 4, 5, 6, 7, 8],
                       [0, 9, 1, 2, 3, 4, 5, 6, 7, 8, 10],
                       [0, 1, 2, 3, 4, 5, 6, 7, 8, 9, 10],
                       [0, 1, 2, 3, 4, 5, 6, 7, 8, 9, 10]] ! r ! c)\<rparr>"

text \<open>The cutoffs that the default quantiles give on each of these matrices.\<close>

definition cutoffs11 :: marker_cutoffs where
  "cutoffs11 =
     \<lparr>gene_low1 = Some 4, gene_high1 = Some 6, gene_low2 = Some 4, gene_high2 = Some 6,
      gene_low1_ml = Some 2, gene_high1_ml = Some 8, gene_low2_ml = Some 2,
      gene_high2_ml = Some 8, gene_low3 = Some 2, gene_high3 = Some 8,
      gene_low4 = Some 2, gene_high4 = Some 8\<rparr>"

text \<open>Four marker genes that are zero in both of two cells.\<close>

definition zeros42 :: ndarray2 where
  "zeros42 = \<lparr>shape0 = 4, shape1 = 2, cell = (\<lambda>r c. 0)\<rparr>"

section \<open>Loop invariants\<close>

lemma check_ind_iff: "check_ind a b xs ys \<longleftrightarrow> (a, b) \<in> set (zip xs ys)"
  by (induction a b xs ys rule: check_ind.induct) auto

lemma pairs_inv_no_pairs: "pairs_inv S no_pairs"
  by (simp add: pairs_inv_def no_pairs_def)

lemma pairs_inv_append_ml:
  assumes "pairs_inv S st" "t1 \<noteq> t2" "t1 \<in> S" "t2 \<in> S"
    and "\<not> check_ind t1 t2 (ml_ind1 st) (ml_ind2 st)"
  shows "pairs_inv S (append_ml t1 t2 st)"
  using assms by (auto simp: pairs_inv_def append_ml_def check_ind_iff)

lemma pairs_inv_append_cl:
  assumes "pairs_inv S st" "t1 \<noteq> t2" "t1 \<in> S" "t2 \<in> S"
  shows "pairs_inv S (append_cl t1 t2 st)"
  using assms by (auto simp: pairs_inv_def append_cl_def)

lemma random_randint_range:
  assumes "random_randint g 0 (int n - 1) = Inr (t, g')"
  shows "t \<in> {0..<int n}"
proof -
  from assms have n: "0 < n" and t: "t = int (shd g mod n)"
    by (auto simp: random_randint_def split: if_splits)
  then show ?thesis by simp
qed

lemma random_choice_mem:
  assumes "random_choice g xs = Inr (t, g')"
  shows "t \<in> set xs"
  using assms by (auto simp: random_choice_def split: if_splits)

lemmas sample_loop_induct = sample_loop.raw_induct[rotated 1, consumes 1, case_names step]

lemma decided_append_ml:
  "decided decide st \<Longrightarrow> decide t1 t2 = MustLink \<Longrightarrow> decided decide (append_ml t1 t2 st)"
  by (auto simp: decided_def append_ml_def)

lemma decided_append_cl:
  "decided decide st \<Longrightarrow> decide t1 t2 = CannotLink \<Longrightarrow> decided decide (append_cl t1 t2 st)"
  by (auto simp: decided_def append_cl_def)

lemma decided_no_pairs: "decided decide no_pairs"
  by (simp add: decided_def no_pairs_def)

lemma sample_loop_inv:
  assumes "sample_loop decide n g num st = Some (Inr st')"
    and "pairs_inv {0..<int n} st" and "decided decide st"
  shows "pairs_inv {0..<int n} st' \<and> decided decide st'"
proof -
  have "\<forall>st'. r = Inr st' \<longrightarrow> pairs_inv {0..<int n} st \<and> decided decide st \<longrightarrow>
          pairs_inv {0..<int n} st' \<and> decided decide st'"
    if "sample_loop decide n g num st = Some r" for r
    using that
  proof (induction rule: sample_loop_induct)
    case (step loop decide n g num st r)
    show ?case
    proof (cases "num > 0")
      case False
      with step(2) show ?thesis by auto
    next
      case True
      show ?thesis
      proof (intro allI impI)
        fix st' assume r: "r = Inr st'"
          and "pairs_inv {0..<int n} st \<and> decided decide st"
        then have inv: "pairs_inv {0..<int n} st" and dec: "decided decide st"
          by simp_all
        from step(2) True r obtain tmp1 g1 tmp2 g2 where
          d1: "random_randint g 0 (int n - 1) = Inr (tmp1, g1)" and
          d2: "random_randint g1 0 (int n - 1) = Inr (tmp2, g2)"
          by (auto split: sum.splits)
        note rg = random_randint_range[OF d1] random_randint_range[OF d2]
        from step(2) True r d1 d2 consider
          (skip) "loop decide n g2 num st = Some (Inr st')"
          | (ml) "tmp1 \<noteq> tmp2" "\<not> check_ind tmp1 tmp2 (ml_ind1 st) (ml_ind2 st)"
                 "decide tmp1 tmp2 = MustLink"
                 "loop decide n g2 (num - 1) (append_ml tmp1 tmp2 st) = Some (Inr st')"
          | (cl) "tmp1 \<noteq> tmp2" "decide tmp1 tmp2 = CannotLink"
                 "loop decide n g2 (num - 1) (append_cl tmp1 tmp2 st) = Some (Inr st')"
          by (auto split: if_splits decision.splits)
        then show "pairs_inv {0..<int n} st' \<and> decided decide st'"
        proof cases
          case skip
          from step(1)[OF skip] inv dec show ?thesis by simp
        next
          case ml
          from step(1)[OF ml(4)] pairs_inv_append_ml[OF inv ml(1) rg ml(2)]
            decided_append_ml[OF dec ml(3)]
          show ?thesis by simp
        next
          case cl
          from step(1)[OF cl(3)] pairs_inv_append_cl[OF inv cl(1) rg]
            decided_append_cl[OF dec cl(2)]
          show ?thesis by simp
        qed
      qed
    qed
  qed
  with assms show ?thesis by blast
qed

lemmas random_pair_loop_induct = random_pair_loop.raw_induct[rotated 1, consumes 1, case_names step]
lemmas two_CDs_loop_induct = two_CDs_loop.raw_induct[rotated 1, consumes 1, case_names step]
lemmas one_CD_loop_induct = one_CD_loop.raw_induct[rotated 1, consumes 1, case_names step]

lemma random_pair_loop_inv:
  assumes "random_pair_loop y pool er num0 g num en st = Some (Inr (st', en'))"
    and "pairs_inv (set pool) st"
  shows "pairs_inv (set pool) st'"
proof -
  have "\<forall>st' en'. r = Inr (st', en') \<longrightarrow> pairs_inv (set pool) st \<longrightarrow> pairs_inv (set pool) st'"
    if "random_pair_loop y pool er num0 g num en st = Some r" for r
    using that
  proof (induction rule: random_pair_loop_induct)
    case (step loop y pool er num0 g num en st r)
    show ?case
    proof (cases "num > 0")
      case False
      with step(2) show ?thesis by auto
    next
      case True
      show ?thesis
      proof (intro allI impI)
        fix st' en' assume r: "r = Inr (st', en')" and inv: "pairs_inv (set pool) st"
        from step(2) True r obtain tmp1 g1 tmp2 g2 where
          d1: "random_choice g pool = Inr (tmp1, g1)" and
          d2: "random_choice g1 pool = Inr (tmp2, g2)"
          by (auto split: sum.splits)
        note rg = random_choice_mem[OF d1] random_choice_mem[OF d2]
        from step(2) True r d1 d2 consider
          (skip) "loop y pool er num0 g2 num en st = Some (Inr (st', en'))"
          | (ml) en2 where "tmp1 \<noteq> tmp2" "\<not> check_ind tmp1 tmp2 (ml_ind1 st) (ml_ind2 st)"
                 "loop y pool er num0 g2 (num - 1) en2 (append_ml tmp1 tmp2 st) = Some (Inr (st', en'))"
          | (cl) en2 where "tmp1 \<noteq> tmp2"
                 "loop y pool er num0 g2 (num - 1) en2 (append_cl tmp1 tmp2 st) = Some (Inr (st', en'))"
          by (auto split: if_splits sum.splits)
        then show "pairs_inv (set pool) st'"
        proof cases
          case skip
          from step(1)[OF skip] inv show ?thesis by simp
        next
          case ml
          from step(1)[OF ml(3)] pairs_inv_append_ml[OF inv ml(1) rg ml(2)]
          show ?thesis by simp
        next
          case cl
          from step(1)[OF cl(2)] pairs_inv_append_cl[OF inv cl(1) rg]
          show ?thesis by simp
        qed
      qed
    qed
  qed
  with assms show ?thesis by blast
qed

lemma two_CDs_loop_inv:
  assumes "two_CDs_loop E c g num k st = Some (Inr st')"
    and "pairs_inv {0..<int (shape1 E)} st"
  shows "pairs_inv {0..<int (shape1 E)} st'"
proof -
  have "\<forall>st'. r = Inr st' \<longrightarrow> pairs_inv {0..<int (shape1 E)} st \<longrightarrow>
          pairs_inv {0..<int (shape1 E)} st'"
    if "two_CDs_loop E c g num k st = Some r" for r
    using that
  proof (induction rule: two_CDs_loop_induct)
    case (step loop E c g num k st r)
    show ?case
    proof (cases "num > 0 \<and> k < two_CDs_cap")
      case False
      with step(2) show ?thesis by auto
    next
      case True
      show ?thesis
      proof (intro allI impI)
        fix st' assume r: "r = Inr st'" and inv: "pairs_inv {0..<int (shape1 E)} st"
        from step(2) True r obtain tmp1 g1 tmp2 g2 where
          d1: "random_randint g 0 (int (shape1 E) - 1) = Inr (tmp1, g1)" and
          d2: "random_randint g1 0 (int (shape1 E) - 1) = Inr (tmp2, g2)"
          by (auto split: sum.splits)
        note rg = random_randint_range[OF d1] random_randint_range[OF d2]
        from step(2) True r d1 d2 consider
          (skip) "loop E c g2 num (k + 1) st = Some (Inr st')"
          | (ml) "tmp1 \<noteq> tmp2" "\<not> check_ind tmp1 tmp2 (ml_ind1 st) (ml_ind2 st)"
                 "loop E c g2 (num - 1) (k + 1) (append_ml tmp1 tmp2 st) = Some (Inr st')"
          | (cl) "tmp1 \<noteq> tmp2"
                 "loop E c g2 (num - 1) (k + 1) (append_cl tmp1 tmp2 st) = Some (Inr st')"
          by (auto split: if_splits decision.splits)
        then show "pairs_inv {0..<int (shape1 E)} st'"
        proof cases
          case skip
          from step(1)[OF skip] inv show ?thesis by simp
        next
          case ml
          from step(1)[OF ml(3)] pairs_inv_append_ml[OF inv ml(1) rg ml(2)]
          show ?thesis by simp
        next
          case cl
          from step(1)[OF cl(2)] pairs_inv_append_cl[OF inv cl(1) rg]
          show ?thesis by simp
        qed
      qed
    qed
  qed
  with assms show ?thesis by blast
qed

lemma one_CD_loop_inv:
  assumes "one_CD_loop E gene lc1 mc1 g num1 num2 k st = Some (Inr st')"
    and "pairs_inv {0..<int (shape1 E)} st"
  shows "pairs_inv {0..<int (shape1 E)} st'"
proof -
  have "\<forall>st'. r = Inr st' \<longrightarrow> pairs_inv {0..<int (shape1 E)} st \<longrightarrow>
          pairs_inv {0..<int (shape1 E)} st'"
    if "one_CD_loop E gene lc1 mc1 g num1 num2 k st = Some r" for r
    using that
  proof (induction rule: one_CD_loop_induct)
    case (step loop E gene lc1 mc1 g num1 num2 k st r)
    show ?case
    proof (cases "(num1 > 0 \<or> num2 > 0) \<and> k < one_CD_cap")
      case False
      with step(2) show ?thesis by auto
    next
      case True
      show ?thesis
      proof (intro allI impI)
        fix st' assume r: "r = Inr st'" and inv: "pairs_inv {0..<int (shape1 E)} st"
        from step(2) True r obtain tmp1 g1 tmp2 g2 where
          d1: "random_randint g 0 (int (shape1 E) - 1) = Inr (tmp1, g1)" and
          d2: "random_randint g1 0 (int (shape1 E) - 1) = Inr (tmp2, g2)"
          by (auto split: sum.splits)
        note rg = random_randint_range[OF d1] random_randint_range[OF d2]
        from step(2) True r d1 d2 consider
          (skip) "loop E gene lc1 mc1 g2 num1 num2 (k + 1) st = Some (Inr st')"
          | (ml) "tmp1 \<noteq> tmp2" "\<not> check_ind tmp1 tmp2 (ml_ind1 st) (ml_ind2 st)"
                 "loop E gene lc1 mc1 g2 (num1 - 1) num2 (k + 1) (append_ml tmp1 tmp2 st) = Some (Inr st')"
          | (cl) "tmp1 \<noteq> tmp2"
                 "loop E gene lc1 mc1 g2 num1 (num2 - 1) (k + 1) (append_cl tmp1 tmp2 st) = Some (Inr st')"
          by (auto split: if_splits)
        then show "pairs_inv {0..<int (shape1 E)} st'"
        proof cases
          case skip
          from step(1)[OF skip] inv show ?thesis by simp
        next
          case ml
          from step(1)[OF ml(3)] pairs_inv_append_ml[OF inv ml(1) rg ml(2)]
          show ?thesis by simp
        next
          case cl
          from step(1)[OF cl(2)] pairs_inv_append_cl[OF inv cl(1) rg]
          show ?thesis by simp
        qed
      qed
    qed
  qed
  with assms show ?thesis by blast
qed


lemma shuffle_down_mset:
  "i < length xs \<or> xs = [] \<Longrightarrow> mset (fst (shuffle_down i p xs)) = mset xs"
proof (induction i arbitrary: p xs)
  case 0
  then show ?case by simp
next
  case (Suc i)
  let ?j = "shd p mod Suc (Suc i)"
  let ?ys = "xs[Suc i := xs ! ?j, ?j := xs ! Suc i]"
  show ?case
  proof (cases "xs = []")
    case True
    then show ?thesis using Suc.IH[of "[]" "stl p"] by (simp add: Let_def)
  next
    case False
    with Suc.prems have len: "Suc i < length xs" by simp
    have "?j < Suc (Suc i)" by (rule mod_less_divisor) simp
    with len have j: "?j < length xs" by linarith
    have "mset ?ys = mset xs"
      using mset_swap[OF j len] by simp
    moreover have "i < length ?ys"
      using len by simp
    ultimately show ?thesis using Suc.IH[of ?ys "stl p"]
      by (simp add: Let_def)
  qed
qed

lemma np_permutation_mset: "mset (fst (np_permutation p n)) = mset [0..<n]"
  unfolding np_permutation_def by (rule shuffle_down_mset) (cases n; simp)

lemma np_take_mset:
  assumes "mset idx = mset [0..<length zs]"
  shows "mset (np_take zs idx) = mset zs"
proof -
  have "mset (np_take zs idx) = image_mset ((!) zs) (mset idx)"
    by (simp add: np_take_def)
  also have "\<dots> = mset (map ((!) zs) [0..<length zs])"
    by (simp add: assms)
  finally show ?thesis by (simp add: map_nth)
qed

lemma np_take_zip:
  assumes "length xs = length ys" and "mset idx = mset [0..<length xs]"
  shows "zip (np_take xs idx) (np_take ys idx) = np_take (zip xs ys) idx"
proof -
  have "set idx = {0..<length xs}"
    using mset_eq_setD[OF assms(2)] by simp
  then have "\<forall>i \<in> set idx. zip xs ys ! i = (xs ! i, ys ! i)"
    using assms(1) by simp
  then show ?thesis
    by (simp add: np_take_def zip_map_map zip_same_conv_map)
qed

lemma np_take_length: "length (np_take xs idx) = length idx"
  by (simp add: np_take_def)

lemma permute_pairs_permutation_of:
  assumes "length (ml_ind1 st) = length (ml_ind2 st)" and "length (cl_ind1 st) = length (cl_ind2 st)"
  shows "permutation_of (permute_pairs p st) st"
proof -
  obtain ml_index p1 where m: "np_permutation p (length (ml_ind1 st)) = (ml_index, p1)"
    by (cases "np_permutation p (length (ml_ind1 st))")
  obtain cl_index p2 where c: "np_permutation p1 (length (cl_ind1 st)) = (cl_index, p2)"
    by (cases "np_permutation p1 (length (cl_ind1 st))")
  have mi: "mset ml_index = mset [0..<length (ml_ind1 st)]"
    using np_permutation_mset[of p "length (ml_ind1 st)"] m by simp
  have ci: "mset cl_index = mset [0..<length (cl_ind1 st)]"
    using np_permutation_mset[of p1 "length (cl_ind1 st)"] c by simp
  have r: "permute_pairs p st =
      \<lparr>ml_ind1 = np_take (ml_ind1 st) ml_index, ml_ind2 = np_take (ml_ind2 st) ml_index,
       cl_ind1 = np_take (cl_ind1 st) cl_index, cl_ind2 = np_take (cl_ind2 st) cl_index\<rparr>"
    by (simp add: permute_pairs_def m c)
  have "mset (np_take (zip (ml_ind1 st) (ml_ind2 st)) ml_index) = mset (zip (ml_ind1 st) (ml_ind2 st))"
    by (rule np_take_mset) (simp add: mi assms(1))
  moreover have "mset (np_take (zip (cl_ind1 st) (cl_ind2 st)) cl_index) = mset (zip (cl_ind1 st) (cl_ind2 st))"
    by (rule np_take_mset) (simp add: ci assms(2))
  ultimately show ?thesis
    unfolding permutation_of_def r
    by (simp add: np_take_zip[OF assms(1) mi] np_take_zip[OF assms(2) ci] np_take_length)
qed

lemma permutation_of_pairs_inv:
  assumes "permutation_of r st" and "pairs_inv S st"
  shows "pairs_inv S r"
proof -
  from assms(1) have
    m: "mset (zip (ml_ind1 r) (ml_ind2 r)) = mset (zip (ml_ind1 st) (ml_ind2 st))" and
    c: "mset (zip (cl_ind1 r) (cl_ind2 r)) = mset (zip (cl_ind1 st) (cl_ind2 st))" and
    l: "length (ml_ind1 r) = length (ml_ind2 r)" "length (cl_ind1 r) = length (cl_ind2 r)"
    by (simp_all add: permutation_of_def)
  have "distinct (zip (ml_ind1 r) (ml_ind2 r))"
    using mset_eq_imp_distinct_iff[OF m] assms(2) by (simp add: pairs_inv_def)
  moreover have "set (zip (ml_ind1 r) (ml_ind2 r)) = set (zip (ml_ind1 st) (ml_ind2 st))"
    "set (zip (cl_ind1 r) (cl_ind2 r)) = set (zip (cl_ind1 st) (cl_ind2 st))"
    using mset_eq_setD[OF m] mset_eq_setD[OF c] by simp_all
  ultimately show ?thesis
    using assms(2) l by (simp add: pairs_inv_def)
qed

lemma permutation_of_decided:
  assumes "permutation_of r st" and "decided decide st"
  shows "decided decide r"
proof -
  from assms(1) have
    m: "mset (zip (ml_ind1 r) (ml_ind2 r)) = mset (zip (ml_ind1 st) (ml_ind2 st))" and
    c: "mset (zip (cl_ind1 r) (cl_ind2 r)) = mset (zip (cl_ind1 st) (cl_ind2 st))" and
    l: "length (ml_ind1 r) = length (ml_ind2 r)" "length (cl_ind1 r) = length (cl_ind2 r)"
    by (simp_all add: permutation_of_def)
  have "set (zip (ml_ind1 r) (ml_ind2 r)) = set (zip (ml_ind1 st) (ml_ind2 st))"
    "set (zip (cl_ind1 r) (cl_ind2 r)) = set (zip (cl_ind1 st) (cl_ind2 st))"
    using mset_eq_setD[OF m] mset_eq_setD[OF c] by simp_all
  then show ?thesis
    using assms(2) l by (simp add: decided_def)
qed

lemma finish_Inr:
  assumes "finish p x = Some (Inr r)"
  obtains st where "x = Some (Inr st)" "r = permute_pairs p st"
  using assms by (auto simp: finish_def split: option.splits sum.splits)

section \<open>Runs on the example inputs\<close>

lemmas step_eval = random_choice_def random_randint_def np_index_def append_ml_def
  append_cl_def no_pairs_def Let_def

lemma np_permutation_1: "np_permutation p (Suc 0) = ([0], p)"
  by (simp add: np_permutation_def)

lemma np_permutation_0: "np_permutation p 0 = ([], p)"
  by (simp add: np_permutation_def)

lemma np_permutation_2: "np_permutation (sconst 0) (Suc (Suc 0)) = ([1, 0], sconst 0)"
  by (simp add: np_permutation_def upt_rec)

lemma run_random_pair_sampling:
  "random_pair_sampling (cycle [0, 1, 0, 1, 1, 0]) [0, 0, 0] [0, 1, 2] 2 0 =
     Some (Inr (\<lparr>ml_ind1 = [0, 1], ml_ind2 = [1, 0], cl_ind1 = [], cl_ind2 = []\<rparr>, 0))"
  unfolding random_pair_sampling_def
  apply (subst random_pair_loop.simps, simp add: step_eval)
  apply (subst random_pair_loop.simps, simp add: step_eval)
  apply (subst random_pair_loop.simps, simp add: step_eval)
  apply (subst random_pair_loop.simps, simp add: step_eval)
  done

lemma run_generate_random_pair:
  "generate_random_pair (cycle [0, 1, 0, 1, 1, 0]) (sconst 0) [0, 0, 0] [0, 1, 2] 2 0 =
     Some (Inr (\<lparr>ml_ind1 = [1, 0], ml_ind2 = [0, 1], cl_ind1 = [], cl_ind2 = []\<rparr>, 0))"
  unfolding generate_random_pair_def run_random_pair_sampling
  by (simp add: permute_pairs_def np_permutation_2 np_permutation_0 np_take_def)

lemma latent_dist_vec_line3:
  "latent_dist_vec (exact_distances line3) (shape0 line3) = [1, 2, 1]"
  by (simp add: latent_dist_vec_def exact_distances_def line3_def row_of_def norm2_diff_def
      upt_rec numeral_eq_Suc)

lemma dist_cutoffs_line3:
  "dist_cutoffs exact_distances line3 (3/4) (3/4) = Inr (Some (3/2), Some (3/2))"
  unfolding dist_cutoffs_def latent_dist_vec_line3
  by (simp add: np_quantile_def Let_def bind_err_def line3_def)

lemma decide_proteins_line3:
  "decide_proteins norm2_diff line3 (Some (3/2)) (Some (3/2)) 0 1 = MustLink"
  "decide_proteins norm2_diff line3 (Some (3/2)) (Some (3/2)) 2 0 = CannotLink"
  by (simp_all add: decide_proteins_def line3_def row_of_def norm2_diff_def flt_def fgt_def)

lemma run_proteins_sampling:
  "proteins_sampling exact_distances norm2_diff (cycle [0, 1, 2]) line3 2 (3/4) (3/4) =
     Some (Inr \<lparr>ml_ind1 = [0], ml_ind2 = [1], cl_ind1 = [2], cl_ind2 = [0]\<rparr>)"
  unfolding proteins_sampling_def dist_cutoffs_line3
  apply simp
  apply (subst sample_loop.simps, simp add: step_eval line3_def[THEN arg_cong, of shape0] decide_proteins_line3)
  apply (subst sample_loop.simps, simp add: step_eval line3_def[THEN arg_cong, of shape0] decide_proteins_line3)
  apply (subst sample_loop.simps, simp add: step_eval)
  done


lemma permute_pairs_one_each:
  "permute_pairs p \<lparr>ml_ind1 = [a], ml_ind2 = [b], cl_ind1 = [c], cl_ind2 = [d]\<rparr> =
     \<lparr>ml_ind1 = [a], ml_ind2 = [b], cl_ind1 = [c], cl_ind2 = [d]\<rparr>"
  by (simp add: permute_pairs_def np_permutation_1 np_take_def)

lemma run_generate_random_pair_from_proteins:
  "generate_random_pair_from_proteins exact_distances norm2_diff (cycle [0, 1, 2]) p line3 2 (3/4) (3/4) =
     Some (Inr \<lparr>ml_ind1 = [0], ml_ind2 = [1], cl_ind1 = [2], cl_ind2 = [0]\<rparr>)"
  unfolding generate_random_pair_from_proteins_def run_proteins_sampling
  by (simp add: finish_def permute_pairs_one_each)

lemma decide_embedding_clustering_line3:
  "decide_embedding_clustering norm2_diff line3 ((!) [0, 0, 1]) (Some (3/2)) 0 1 = MustLink"
  "decide_embedding_clustering norm2_diff line3 ((!) [0, 0, 1]) (Some (3/2)) 2 0 = CannotLink"
  by (simp_all add: decide_embedding_clustering_def line3_def row_of_def norm2_diff_def fgt_def)

lemma run_embedding_clustering_sampling:
  "embedding_clustering_sampling exact_distances norm2_diff (cycle [0, 1, 2]) line3 ((!) [0, 0, 1]) 2 (3/4) (3/4) =
     Some (Inr \<lparr>ml_ind1 = [0], ml_ind2 = [1], cl_ind1 = [2], cl_ind2 = [0]\<rparr>)"
  unfolding embedding_clustering_sampling_def dist_cutoffs_line3
  apply simp
  apply (subst sample_loop.simps, simp add: step_eval line3_def[THEN arg_cong, of shape0] decide_embedding_clustering_line3)
  apply (subst sample_loop.simps, simp add: step_eval line3_def[THEN arg_cong, of shape0] decide_embedding_clustering_line3)
  apply (subst sample_loop.simps, simp add: step_eval)
  done

lemma run_generate_random_pair_from_embedding_clustering:
  "generate_random_pair_from_embedding_clustering exact_distances norm2_diff (cycle [0, 1, 2]) p line3 ((!) [0, 0, 1]) 2 (3/4) (3/4) =
     Some (Inr \<lparr>ml_ind1 = [0], ml_ind2 = [1], cl_ind1 = [2], cl_ind2 = [0]\<rparr>)"
  unfolding generate_random_pair_from_embedding_clustering_def run_embedding_clustering_sampling
  by (simp add: finish_def permute_pairs_one_each)

lemma two_CDs_thresholds_quad4:
  "two_CDs_thresholds quad4 50 50 = Inr (Some (5/2), Some (5/2), Some (5/2), Some (5/2))"
  by (simp add: two_CDs_thresholds_def bind_err_def np_row_def np_row_index_def row_of_def
      np_percentile_def np_quantile_def quad4_def Let_def upt_rec numeral_eq_Suc)

lemma run_two_CDs_sampling:
  "two_CDs_sampling (cycle [0, 1, 2, 0]) quad4 2 50 50 =
     Some (Inr \<lparr>ml_ind1 = [0], ml_ind2 = [1], cl_ind1 = [2], cl_ind2 = [0]\<rparr>)"
  unfolding two_CDs_sampling_def two_CDs_thresholds_quad4
  apply simp
  apply (subst two_CDs_loop.simps, simp add: step_eval two_CDs_cap_def quad4_def fgt_def fle_def)
  apply (subst two_CDs_loop.simps, simp add: step_eval two_CDs_cap_def quad4_def fgt_def fle_def)
  apply (subst two_CDs_loop.simps, simp add: step_eval)
  done

lemma run_generate_random_pair_from_two_CDs:
  "generate_random_pair_from_two_CDs (cycle [0, 1, 2, 0]) p quad4 2 50 50 =
     Some (Inr \<lparr>ml_ind1 = [0], ml_ind2 = [1], cl_ind1 = [2], cl_ind2 = [0]\<rparr>)"
  unfolding generate_random_pair_from_two_CDs_def run_two_CDs_sampling
  by (simp add: finish_def permute_pairs_one_each)


lemma one_CD_thresholds_ramp4:
  "np_row_index ramp4 0 = Inr 0"
  "np_percentile (row_of ramp4 0) 50 = Inr (Some (3/2))"
  by (simp_all add: np_row_index_def row_of_def np_percentile_def np_quantile_def ramp4_def
      Let_def upt_rec numeral_eq_Suc)

lemma run_one_CD_sampling:
  "one_CD_sampling (cycle [2, 3, 2, 0]) ramp4 2 50 50 0 =
     Some (Inr \<lparr>ml_ind1 = [2], ml_ind2 = [3], cl_ind1 = [2], cl_ind2 = [0]\<rparr>)"
  apply (simp add: one_CD_sampling_def one_CD_thresholds_ramp4)
  apply (subst one_CD_loop.simps, simp add: step_eval one_CD_cap_def ramp4_def fgt_def fle_def)
  apply (subst one_CD_loop.simps, simp add: step_eval one_CD_cap_def ramp4_def fgt_def fle_def)
  apply (subst one_CD_loop.simps, simp add: step_eval)
  done

lemma run_one_CD_sampling_odd:
  "one_CD_sampling (cycle [2, 3, 2, 0]) ramp4 1 50 50 0 =
     Some (Inr \<lparr>ml_ind1 = [2], ml_ind2 = [3], cl_ind1 = [2], cl_ind2 = [0]\<rparr>)"
  apply (simp add: one_CD_sampling_def one_CD_thresholds_ramp4)
  apply (subst one_CD_loop.simps, simp add: step_eval one_CD_cap_def ramp4_def fgt_def fle_def)
  apply (subst one_CD_loop.simps, simp add: step_eval one_CD_cap_def ramp4_def fgt_def fle_def)
  apply (subst one_CD_loop.simps, simp add: step_eval)
  done

lemma run_generate_random_pair_from_one_CD:
  "generate_random_pair_from_one_CD (cycle [2, 3, 2, 0]) p ramp4 2 50 50 0 =
     Some (Inr \<lparr>ml_ind1 = [2], ml_ind2 = [3], cl_ind1 = [2], cl_ind2 = [0]\<rparr>)"
  unfolding generate_random_pair_from_one_CD_def run_one_CD_sampling
  by (simp add: finish_def permute_pairs_one_each)

lemma marker_thresholds_markers3:
  "marker_thresholds markers3 (1/2) (1/2) 0 0 =
     Inr \<lparr>gene_low1 = Some 1, gene_high1 = Some 1, gene_low2 = Some 2, gene_high2 = Some 2,
          gene_low1_ml = Some 0, gene_high1_ml = Some 0, gene_low2_ml = Some 0,
          gene_high2_ml = Some 0, gene_low3 = Some 0, gene_high3 = Some 0,
          gene_low4 = Some 0, gene_high4 = Some 0\<rparr>"
  by (simp add: marker_thresholds_def bind_err_def np_row_def np_row_index_def row_of_def
      np_quantile_def markers3_def Let_def upt_rec numeral_eq_Suc)

lemmas cond_defs = cond_270_def cond_273_def cond_276_def cond_279_def cond_282_def
  cond_285_def cond_288_def

lemma run_CD_markers_sampling:
  "CD_markers_sampling (cycle [0, 1, 2, 0]) markers3 2 (1/2) (1/2) 0 0 =
     Some (Inr \<lparr>ml_ind1 = [0], ml_ind2 = [1], cl_ind1 = [2], cl_ind2 = [0]\<rparr>)"
  unfolding CD_markers_sampling_def marker_thresholds_markers3
  apply simp
  apply (subst sample_loop.simps, simp add: step_eval decide_CD_markers_def cond_defs markers3_def fgt_def flt_def)
  apply (subst sample_loop.simps, simp add: step_eval decide_CD_markers_def cond_defs markers3_def fgt_def flt_def)
  apply (subst sample_loop.simps, simp add: step_eval)
  done

lemma run_generate_random_pair_from_CD_markers:
  "generate_random_pair_from_CD_markers (cycle [0, 1, 2, 0]) p markers3 2 (1/2) (1/2) 0 0 =
     Some (Inr \<lparr>ml_ind1 = [0], ml_ind2 = [1], cl_ind1 = [2], cl_ind2 = [0]\<rparr>)"
  unfolding generate_random_pair_from_CD_markers_def run_CD_markers_sampling
  by (simp add: finish_def permute_pairs_one_each)

section \<open>What every generator returns\<close>

lemma generate_random_pair_sampled:
  assumes "generate_random_pair g p y pool num er = Some (Inr (r, en))"
  shows "\<exists>st. random_pair_sampling g y pool num er = Some (Inr (st, en)) \<and>
           permutation_of r st \<and> pairs_inv (set pool) st"
proof -
  from assms obtain st where
    s: "random_pair_sampling g y pool num er = Some (Inr (st, en))" and r: "r = permute_pairs p st"
    by (auto simp: generate_random_pair_def split: option.splits sum.splits)
  from s have inv: "pairs_inv (set pool) st"
    unfolding random_pair_sampling_def
    by (rule random_pair_loop_inv) (rule pairs_inv_no_pairs)
  then have "permutation_of r st"
    unfolding r by (intro permute_pairs_permutation_of) (simp_all add: pairs_inv_def)
  with s inv show ?thesis by blast
qed

lemma proteins_sampling_inv:
  assumes "proteins_sampling euclidean_distances norm2 g E num ML CL = Some (Inr st)"
  shows "\<exists>cutoff_ML cutoff_CL. dist_cutoffs euclidean_distances E ML CL = Inr (cutoff_ML, cutoff_CL) \<and>
           pairs_inv {0..<int (shape0 E)} st \<and> decided (decide_proteins norm2 E cutoff_ML cutoff_CL) st"
proof -
  from assms obtain cutoff_ML cutoff_CL where
    c: "dist_cutoffs euclidean_distances E ML CL = Inr (cutoff_ML, cutoff_CL)" and
    l: "sample_loop (decide_proteins norm2 E cutoff_ML cutoff_CL) (shape0 E) g num no_pairs = Some (Inr st)"
    by (auto simp: proteins_sampling_def split: sum.splits)
  from sample_loop_inv[OF l pairs_inv_no_pairs decided_no_pairs] c show ?thesis by blast
qed

lemma embedding_clustering_sampling_inv:
  assumes "embedding_clustering_sampling euclidean_distances norm2 g E y_pred num ML CL = Some (Inr st)"
  shows "pairs_inv {0..<int (shape0 E)} st"
proof -
  from assms obtain cutoff_CL where
    l: "sample_loop (decide_embedding_clustering norm2 E y_pred cutoff_CL) (shape0 E) g num no_pairs = Some (Inr st)"
    by (auto simp: embedding_clustering_sampling_def split: sum.splits)
  from sample_loop_inv[OF l pairs_inv_no_pairs decided_no_pairs] show ?thesis by blast
qed

lemma CD_markers_sampling_inv:
  assumes "CD_markers_sampling g markers num low1 high1 low2 high2 = Some (Inr st)"
  shows "pairs_inv {0..<int (shape1 markers)} st"
proof -
  from assms obtain q where
    l: "sample_loop (decide_CD_markers markers q) (shape1 markers) g num no_pairs = Some (Inr st)"
    by (auto simp: CD_markers_sampling_def split: sum.splits)
  from sample_loop_inv[OF l pairs_inv_no_pairs decided_no_pairs] show ?thesis by blast
qed

lemma two_CDs_sampling_inv:
  assumes "two_CDs_sampling g E num LC HC = Some (Inr st)"
  shows "pairs_inv {0..<int (shape1 E)} st"
proof -
  from assms obtain c where
    l: "two_CDs_loop E c g num 0 no_pairs = Some (Inr st)"
    by (auto simp: two_CDs_sampling_def split: sum.splits)
  from two_CDs_loop_inv[OF l pairs_inv_no_pairs] show ?thesis .
qed

lemma one_CD_sampling_inv:
  assumes "one_CD_sampling g E num LC HC gene = Some (Inr st)"
  shows "pairs_inv {0..<int (shape1 E)} st"
proof -
  from assms obtain r lc1 mc1 where
    l: "one_CD_loop E r lc1 mc1 g (real_of_int num / 2) (real_of_int num / 2) 0 no_pairs = Some (Inr st)"
    by (auto simp: one_CD_sampling_def split: sum.splits)
  from one_CD_loop_inv[OF l pairs_inv_no_pairs] show ?thesis .
qed

lemma finish_sampled:
  assumes "finish p x = Some (Inr r)" and "\<And>st. x = Some (Inr st) \<Longrightarrow> pairs_inv S st"
  shows "\<exists>st. x = Some (Inr st) \<and> permutation_of r st \<and> pairs_inv S st"
proof -
  from assms(1) obtain st where x: "x = Some (Inr st)" and r: "r = permute_pairs p st"
    by (rule finish_Inr)
  from assms(2)[OF x] have inv: "pairs_inv S st" .
  then have "permutation_of r st"
    unfolding r by (intro permute_pairs_permutation_of) (simp_all add: pairs_inv_def)
  with x inv show ?thesis by blast
qed

lemma generate_random_pair_inv:
  assumes "generate_random_pair g p y pool num er = Some (Inr (r, en))"
  shows "pairs_inv (set pool) r"
  using generate_random_pair_sampled[OF assms] permutation_of_pairs_inv by blast

lemma generate_random_pair_from_proteins_sampled:
  assumes "generate_random_pair_from_proteins euclidean_distances norm2 g p E num ML CL = Some (Inr r)"
  shows "\<exists>st. proteins_sampling euclidean_distances norm2 g E num ML CL = Some (Inr st) \<and> permutation_of r st \<and>
           pairs_inv {0..<int (shape0 E)} st"
  using assms unfolding generate_random_pair_from_proteins_def
  by (rule finish_sampled) (use proteins_sampling_inv in blast)

lemma generate_random_pair_from_proteins_inv:
  assumes "generate_random_pair_from_proteins euclidean_distances norm2 g p E num ML CL = Some (Inr r)"
  shows "pairs_inv {0..<int (shape0 E)} r"
  using generate_random_pair_from_proteins_sampled[OF assms] permutation_of_pairs_inv by blast

lemma generate_random_pair_from_embedding_clustering_sampled:
  assumes "generate_random_pair_from_embedding_clustering euclidean_distances norm2 g p E y_pred num ML CL = Some (Inr r)"
  shows "\<exists>st. embedding_clustering_sampling euclidean_distances norm2 g E y_pred num ML CL = Some (Inr st) \<and> permutation_of r st \<and>
           pairs_inv {0..<int (shape0 E)} st"
  using assms unfolding generate_random_pair_from_embedding_clustering_def
  by (rule finish_sampled) (rule embedding_clustering_sampling_inv)

lemma generate_random_pair_from_embedding_clustering_inv:
  assumes "generate_random_pair_from_embedding_clustering euclidean_distances norm2 g p E y_pred num ML CL = Some (Inr r)"
  shows "pairs_inv {0..<int (shape0 E)} r"
  using generate_random_pair_from_embedding_clustering_sampled[OF assms] permutation_of_pairs_inv by blast

lemma generate_random_pair_from_CD_markers_sampled:
  assumes "generate_random_pair_from_CD_markers g p markers num low1 high1 low2 high2 = Some (Inr r)"
  shows "\<exists>st. CD_markers_sampling g markers num low1 high1 low2 high2 = Some (Inr st) \<and> permutation_of r st \<and>
           pairs_inv {0..<int (shape1 markers)} st"
  using assms unfolding generate_random_pair_from_CD_markers_def
  by (rule finish_sampled) (rule CD_markers_sampling_inv)

lemma generate_random_pair_from_CD_markers_inv:
  assumes "generate_random_pair_from_CD_markers g p markers num low1 high1 low2 high2 = Some (Inr r)"
  shows "pairs_inv {0..<int (shape1 markers)} r"
  using generate_random_pair_from_CD_markers_sampled[OF assms] permutation_of_pairs_inv by blast

lemma generate_random_pair_from_two_CDs_sampled:
  assumes "generate_random_pair_from_two_CDs g p E num LC HC = Some (Inr r)"
  shows "\<exists>st. two_CDs_sampling g E num LC HC = Some (Inr st) \<and> permutation_of r st \<and>
           pairs_inv {0..<int (shape1 E)} st"
  using assms unfolding generate_random_pair_from_two_CDs_def
  by (rule finish_sampled) (rule two_CDs_sampling_inv)

lemma generate_random_pair_from_two_CDs_inv:
  assumes "generate_random_pair_from_two_CDs g p E num LC HC = Some (Inr r)"
  shows "pairs_inv {0..<int (shape1 E)} r"
  using generate_random_pair_from_two_CDs_sampled[OF assms] permutation_of_pairs_inv by blast

lemma generate_random_pair_from_one_CD_sampled:
  assumes "generate_random_pair_from_one_CD g p E num LC HC gene = Some (Inr r)"
  shows "\<exists>st. one_CD_sampling g E num LC HC gene = Some (Inr st) \<and> permutation_of r st \<and>
           pairs_inv {0..<int (shape1 E)} st"
  using assms unfolding generate_random_pair_from_one_CD_def
  by (rule finish_sampled) (rule one_CD_sampling_inv)

lemma generate_random_pair_from_one_CD_inv:
  assumes "generate_random_pair_from_one_CD g p E num LC HC gene = Some (Inr r)"
  shows "pairs_inv {0..<int (shape1 E)} r"
  using generate_random_pair_from_one_CD_sampled[OF assms] permutation_of_pairs_inv by blast

lemmas conj6 =
  conjunct1
  conjunct2[THEN conjunct1]
  conjunct2[THEN conjunct2, THEN conjunct1]
  conjunct2[THEN conjunct2, THEN conjunct2, THEN conjunct1]
  conjunct2[THEN conjunct2, THEN conjunct2, THEN conjunct2, THEN conjunct1]
  conjunct2[THEN conjunct2, THEN conjunct2, THEN conjunct2, THEN conjunct2]

section \<open>Properties of the generators\<close>

lemma pairs_inv_distinct: "pairs_inv S r \<Longrightarrow> distinct (zip (ml_ind1 r) (ml_ind2 r))"
  by (simp add: pairs_inv_def)

text \<open>
  \<^bold>\<open>C3.\<close> In every generator the must-link lists returned hold no ordered pair of
  indices twice: a candidate is scanned against the must-link pairs gathered so far
  (\<open>check_ind\<close>) and dropped on a match, and the closing permutation moves pairs without
  copying any.
\<close>

theorem no_duplicate_must_link:
  "(generate_random_pair g p y label_cell_indx num error_rate = Some (Inr (r, error_num))
      \<longrightarrow> distinct (zip (ml_ind1 r) (ml_ind2 r))) \<and>
   (generate_random_pair_from_proteins euclidean_distances norm2 g p latent_embedding num ML CL = Some (Inr r)
      \<longrightarrow> distinct (zip (ml_ind1 r) (ml_ind2 r))) \<and>
   (generate_random_pair_from_two_CDs g p latent_embedding num LC HC = Some (Inr r)
      \<longrightarrow> distinct (zip (ml_ind1 r) (ml_ind2 r))) \<and>
   (generate_random_pair_from_one_CD g p latent_embedding num LC HC gene = Some (Inr r)
      \<longrightarrow> distinct (zip (ml_ind1 r) (ml_ind2 r))) \<and>
   (generate_random_pair_from_CD_markers g p markers num low1 high1 low2 high2 = Some (Inr r)
      \<longrightarrow> distinct (zip (ml_ind1 r) (ml_ind2 r))) \<and>
   (generate_random_pair_from_embedding_clustering euclidean_distances norm2 g p latent_embedding y_pred num ML CL = Some (Inr r)
      \<longrightarrow> distinct (zip (ml_ind1 r) (ml_ind2 r)))"
  by (intro conjI impI pairs_inv_distinct)
    (erule generate_random_pair_inv generate_random_pair_from_proteins_inv
      generate_random_pair_from_two_CDs_inv generate_random_pair_from_one_CD_inv
      generate_random_pair_from_CD_markers_inv
      generate_random_pair_from_embedding_clustering_inv)+

theorem no_duplicate_must_link_witness:
  "generate_random_pair (cycle [0, 1, 0, 1, 1, 0]) (sconst 0) [0, 0, 0] [0, 1, 2] 2 0 =
     Some (Inr (\<lparr>ml_ind1 = [1, 0], ml_ind2 = [0, 1], cl_ind1 = [], cl_ind2 = []\<rparr>, 0)) \<and>
   distinct (zip [1, 0] [0, 1 :: int]) \<and>
   generate_random_pair_from_proteins exact_distances norm2_diff (cycle [0, 1, 2]) (sconst 0) line3 2 (3/4) (3/4) =
     Some (Inr \<lparr>ml_ind1 = [0], ml_ind2 = [1], cl_ind1 = [2], cl_ind2 = [0]\<rparr>) \<and>
   generate_random_pair_from_two_CDs (cycle [0, 1, 2, 0]) (sconst 0) quad4 2 50 50 =
     Some (Inr \<lparr>ml_ind1 = [0], ml_ind2 = [1], cl_ind1 = [2], cl_ind2 = [0]\<rparr>) \<and>
   generate_random_pair_from_one_CD (cycle [2, 3, 2, 0]) (sconst 0) ramp4 2 50 50 0 =
     Some (Inr \<lparr>ml_ind1 = [2], ml_ind2 = [3], cl_ind1 = [2], cl_ind2 = [0]\<rparr>) \<and>
   generate_random_pair_from_CD_markers (cycle [0, 1, 2, 0]) (sconst 0) markers3 2 (1/2) (1/2) 0 0 =
     Some (Inr \<lparr>ml_ind1 = [0], ml_ind2 = [1], cl_ind1 = [2], cl_ind2 = [0]\<rparr>) \<and>
   generate_random_pair_from_embedding_clustering exact_distances norm2_diff (cycle [0, 1, 2]) (sconst 0) line3 ((!) [0, 0, 1]) 2 (3/4) (3/4) =
     Some (Inr \<lparr>ml_ind1 = [0], ml_ind2 = [1], cl_ind1 = [2], cl_ind2 = [0]\<rparr>) \<and>
   distinct (zip [0] [1 :: int])"
  using no_duplicate_must_link[THEN conjunct1, THEN mp, OF run_generate_random_pair]
    no_duplicate_must_link[THEN conj6(2), THEN mp, OF run_generate_random_pair_from_proteins]
    no_duplicate_must_link[THEN conj6(3), THEN mp, OF run_generate_random_pair_from_two_CDs]
    no_duplicate_must_link[THEN conj6(4), THEN mp, OF run_generate_random_pair_from_one_CD]
    no_duplicate_must_link[THEN conj6(5), THEN mp, OF run_generate_random_pair_from_CD_markers]
    no_duplicate_must_link[THEN conj6(6), THEN mp, OF run_generate_random_pair_from_embedding_clustering]
    run_generate_random_pair run_generate_random_pair_from_proteins
    run_generate_random_pair_from_two_CDs run_generate_random_pair_from_one_CD
    run_generate_random_pair_from_CD_markers run_generate_random_pair_from_embedding_clustering
  by simp

lemma pairs_inv_no_self_pair: "pairs_inv S r \<Longrightarrow> no_self_pair r"
  by (auto simp: pairs_inv_def no_self_pair_def)

lemma pairs_inv_indices_in:
  assumes "pairs_inv S r"
  shows "indices_in S r"
proof -
  from assms have l: "length (ml_ind1 r) = length (ml_ind2 r)" "length (cl_ind1 r) = length (cl_ind2 r)"
    and m: "\<forall>(i, j) \<in> set (zip (ml_ind1 r) (ml_ind2 r)). i \<in> S \<and> j \<in> S"
    and c: "\<forall>(i, j) \<in> set (zip (cl_ind1 r) (cl_ind2 r)). i \<in> S \<and> j \<in> S"
    by (auto simp: pairs_inv_def)
  have "set (ml_ind1 r) \<subseteq> S" "set (ml_ind2 r) \<subseteq> S"
    using m map_fst_zip[OF l(1)] map_snd_zip[OF l(1)]
    by (metis (no_types, lifting) case_prodD image_subsetI prod.collapse set_map)+
  moreover have "set (cl_ind1 r) \<subseteq> S" "set (cl_ind2 r) \<subseteq> S"
    using c map_fst_zip[OF l(2)] map_snd_zip[OF l(2)]
    by (metis (no_types, lifting) case_prodD image_subsetI prod.collapse set_map)+
  ultimately show ?thesis by (simp add: indices_in_def)
qed

text \<open>
  \<^bold>\<open>C4.\<close> In every generator each returned pair, must-link or cannot-link, joins two
  different indices: the loop drops a candidate with \<open>tmp1 = tmp2\<close> before the
  duplicate scan and before the chain that classifies it.
\<close>

theorem no_self_pairs:
  "(generate_random_pair g p y label_cell_indx num error_rate = Some (Inr (r, error_num))
      \<longrightarrow> no_self_pair r) \<and>
   (generate_random_pair_from_proteins euclidean_distances norm2 g p latent_embedding num ML CL = Some (Inr r)
      \<longrightarrow> no_self_pair r) \<and>
   (generate_random_pair_from_two_CDs g p latent_embedding num LC HC = Some (Inr r)
      \<longrightarrow> no_self_pair r) \<and>
   (generate_random_pair_from_one_CD g p latent_embedding num LC HC gene = Some (Inr r)
      \<longrightarrow> no_self_pair r) \<and>
   (generate_random_pair_from_CD_markers g p markers num low1 high1 low2 high2 = Some (Inr r)
      \<longrightarrow> no_self_pair r) \<and>
   (generate_random_pair_from_embedding_clustering euclidean_distances norm2 g p latent_embedding y_pred num ML CL = Some (Inr r)
      \<longrightarrow> no_self_pair r)"
  by (intro conjI impI pairs_inv_no_self_pair)
    (erule generate_random_pair_inv generate_random_pair_from_proteins_inv
      generate_random_pair_from_two_CDs_inv generate_random_pair_from_one_CD_inv
      generate_random_pair_from_CD_markers_inv
      generate_random_pair_from_embedding_clustering_inv)+

theorem no_self_pairs_witness:
  "generate_random_pair (cycle [0, 1, 0, 1, 1, 0]) (sconst 0) [0, 0, 0] [0, 1, 2] 2 0 =
     Some (Inr (\<lparr>ml_ind1 = [1, 0], ml_ind2 = [0, 1], cl_ind1 = [], cl_ind2 = []\<rparr>, 0)) \<and>
   no_self_pair \<lparr>ml_ind1 = [1, 0], ml_ind2 = [0, 1], cl_ind1 = [], cl_ind2 = []\<rparr> \<and>
   generate_random_pair_from_proteins exact_distances norm2_diff (cycle [0, 1, 2]) (sconst 0) line3 2 (3/4) (3/4) =
     Some (Inr \<lparr>ml_ind1 = [0], ml_ind2 = [1], cl_ind1 = [2], cl_ind2 = [0]\<rparr>) \<and>
   no_self_pair \<lparr>ml_ind1 = [0], ml_ind2 = [1], cl_ind1 = [2], cl_ind2 = [0]\<rparr> \<and>
   generate_random_pair_from_two_CDs (cycle [0, 1, 2, 0]) (sconst 0) quad4 2 50 50 =
     Some (Inr \<lparr>ml_ind1 = [0], ml_ind2 = [1], cl_ind1 = [2], cl_ind2 = [0]\<rparr>) \<and>
   no_self_pair \<lparr>ml_ind1 = [0], ml_ind2 = [1], cl_ind1 = [2], cl_ind2 = [0]\<rparr> \<and>
   generate_random_pair_from_one_CD (cycle [2, 3, 2, 0]) (sconst 0) ramp4 2 50 50 0 =
     Some (Inr \<lparr>ml_ind1 = [2], ml_ind2 = [3], cl_ind1 = [2], cl_ind2 = [0]\<rparr>) \<and>
   no_self_pair \<lparr>ml_ind1 = [2], ml_ind2 = [3], cl_ind1 = [2], cl_ind2 = [0]\<rparr> \<and>
   generate_random_pair_from_CD_markers (cycle [0, 1, 2, 0]) (sconst 0) markers3 2 (1/2) (1/2) 0 0 =
     Some (Inr \<lparr>ml_ind1 = [0], ml_ind2 = [1], cl_ind1 = [2], cl_ind2 = [0]\<rparr>) \<and>
   no_self_pair \<lparr>ml_ind1 = [0], ml_ind2 = [1], cl_ind1 = [2], cl_ind2 = [0]\<rparr> \<and>
   generate_random_pair_from_embedding_clustering exact_distances norm2_diff (cycle [0, 1, 2]) (sconst 0) line3 ((!) [0, 0, 1]) 2 (3/4) (3/4) =
     Some (Inr \<lparr>ml_ind1 = [0], ml_ind2 = [1], cl_ind1 = [2], cl_ind2 = [0]\<rparr>) \<and>
   no_self_pair \<lparr>ml_ind1 = [0], ml_ind2 = [1], cl_ind1 = [2], cl_ind2 = [0]\<rparr>"
  using no_self_pairs[THEN conj6(1), THEN mp, OF run_generate_random_pair]
    no_self_pairs[THEN conj6(2), THEN mp, OF run_generate_random_pair_from_proteins]
    no_self_pairs[THEN conj6(3), THEN mp, OF run_generate_random_pair_from_two_CDs]
    no_self_pairs[THEN conj6(4), THEN mp, OF run_generate_random_pair_from_one_CD]
    no_self_pairs[THEN conj6(5), THEN mp, OF run_generate_random_pair_from_CD_markers]
    no_self_pairs[THEN conj6(6), THEN mp, OF run_generate_random_pair_from_embedding_clustering]
    run_generate_random_pair run_generate_random_pair_from_proteins run_generate_random_pair_from_two_CDs run_generate_random_pair_from_one_CD run_generate_random_pair_from_CD_markers run_generate_random_pair_from_embedding_clustering
  by simp

text \<open>
  \<^bold>\<open>C10.\<close> Every returned index is a sample of the input: an element of the pool
  \<open>label_cell_indx\<close> for \<^verbatim>\<open>generate_random_pair\<close>, a row number of the embedding for
  the two row-oriented generators, a column number of the matrix for the three
  column-oriented ones.
\<close>

theorem indices_valid:
  "(generate_random_pair g p y label_cell_indx num error_rate = Some (Inr (r, error_num))
      \<longrightarrow> indices_in (set label_cell_indx) r) \<and>
   (generate_random_pair_from_proteins euclidean_distances norm2 g p latent_embedding num ML CL = Some (Inr r)
      \<longrightarrow> indices_in {0..<int (shape0 latent_embedding)} r) \<and>
   (generate_random_pair_from_two_CDs g p latent_embedding num LC HC = Some (Inr r)
      \<longrightarrow> indices_in {0..<int (shape1 latent_embedding)} r) \<and>
   (generate_random_pair_from_one_CD g p latent_embedding num LC HC gene = Some (Inr r)
      \<longrightarrow> indices_in {0..<int (shape1 latent_embedding)} r) \<and>
   (generate_random_pair_from_CD_markers g p markers num low1 high1 low2 high2 = Some (Inr r)
      \<longrightarrow> indices_in {0..<int (shape1 markers)} r) \<and>
   (generate_random_pair_from_embedding_clustering euclidean_distances norm2 g p latent_embedding y_pred num ML CL = Some (Inr r)
      \<longrightarrow> indices_in {0..<int (shape0 latent_embedding)} r)"
  by (intro conjI impI pairs_inv_indices_in)
    (erule generate_random_pair_inv generate_random_pair_from_proteins_inv
      generate_random_pair_from_two_CDs_inv generate_random_pair_from_one_CD_inv
      generate_random_pair_from_CD_markers_inv
      generate_random_pair_from_embedding_clustering_inv)+

theorem indices_valid_witness:
  "generate_random_pair (cycle [0, 1, 0, 1, 1, 0]) (sconst 0) [0, 0, 0] [0, 1, 2] 2 0 =
     Some (Inr (\<lparr>ml_ind1 = [1, 0], ml_ind2 = [0, 1], cl_ind1 = [], cl_ind2 = []\<rparr>, 0)) \<and>
   indices_in (set [0, 1, 2]) \<lparr>ml_ind1 = [1, 0], ml_ind2 = [0, 1], cl_ind1 = [], cl_ind2 = []\<rparr> \<and>
   generate_random_pair_from_proteins exact_distances norm2_diff (cycle [0, 1, 2]) (sconst 0) line3 2 (3/4) (3/4) =
     Some (Inr \<lparr>ml_ind1 = [0], ml_ind2 = [1], cl_ind1 = [2], cl_ind2 = [0]\<rparr>) \<and>
   indices_in {0..<int (shape0 line3)} \<lparr>ml_ind1 = [0], ml_ind2 = [1], cl_ind1 = [2], cl_ind2 = [0]\<rparr> \<and>
   generate_random_pair_from_two_CDs (cycle [0, 1, 2, 0]) (sconst 0) quad4 2 50 50 =
     Some (Inr \<lparr>ml_ind1 = [0], ml_ind2 = [1], cl_ind1 = [2], cl_ind2 = [0]\<rparr>) \<and>
   indices_in {0..<int (shape1 quad4)} \<lparr>ml_ind1 = [0], ml_ind2 = [1], cl_ind1 = [2], cl_ind2 = [0]\<rparr> \<and>
   generate_random_pair_from_one_CD (cycle [2, 3, 2, 0]) (sconst 0) ramp4 2 50 50 0 =
     Some (Inr \<lparr>ml_ind1 = [2], ml_ind2 = [3], cl_ind1 = [2], cl_ind2 = [0]\<rparr>) \<and>
   indices_in {0..<int (shape1 ramp4)} \<lparr>ml_ind1 = [2], ml_ind2 = [3], cl_ind1 = [2], cl_ind2 = [0]\<rparr> \<and>
   generate_random_pair_from_CD_markers (cycle [0, 1, 2, 0]) (sconst 0) markers3 2 (1/2) (1/2) 0 0 =
     Some (Inr \<lparr>ml_ind1 = [0], ml_ind2 = [1], cl_ind1 = [2], cl_ind2 = [0]\<rparr>) \<and>
   indices_in {0..<int (shape1 markers3)} \<lparr>ml_ind1 = [0], ml_ind2 = [1], cl_ind1 = [2], cl_ind2 = [0]\<rparr> \<and>
   generate_random_pair_from_embedding_clustering exact_distances norm2_diff (cycle [0, 1, 2]) (sconst 0) line3 ((!) [0, 0, 1]) 2 (3/4) (3/4) =
     Some (Inr \<lparr>ml_ind1 = [0], ml_ind2 = [1], cl_ind1 = [2], cl_ind2 = [0]\<rparr>) \<and>
   indices_in {0..<int (shape0 line3)} \<lparr>ml_ind1 = [0], ml_ind2 = [1], cl_ind1 = [2], cl_ind2 = [0]\<rparr>"
  using indices_valid[THEN conj6(1), THEN mp, OF run_generate_random_pair]
    indices_valid[THEN conj6(2), THEN mp, OF run_generate_random_pair_from_proteins]
    indices_valid[THEN conj6(3), THEN mp, OF run_generate_random_pair_from_two_CDs]
    indices_valid[THEN conj6(4), THEN mp, OF run_generate_random_pair_from_one_CD]
    indices_valid[THEN conj6(5), THEN mp, OF run_generate_random_pair_from_CD_markers]
    indices_valid[THEN conj6(6), THEN mp, OF run_generate_random_pair_from_embedding_clustering]
    run_generate_random_pair run_generate_random_pair_from_proteins run_generate_random_pair_from_two_CDs run_generate_random_pair_from_one_CD run_generate_random_pair_from_CD_markers run_generate_random_pair_from_embedding_clustering
  by simp


text \<open>
  \<^bold>\<open>C7.\<close> In every generator the arrays returned are the pairs accepted by the loop in
  another order: \<open>ml_ind1\<close> and \<open>ml_ind2\<close> have one length and, read as pairs, are a
  permutation of the accepted must-link pairs, since one index permutation is applied
  to both arrays; likewise \<open>cl_ind1\<close> and \<open>cl_ind2\<close> under the second permutation.
\<close>

theorem returned_pairs_permute_accepted:
  "(generate_random_pair g p y label_cell_indx num error_rate = Some (Inr (r, error_num))
      \<longrightarrow> (\<exists>st. random_pair_sampling g y label_cell_indx num error_rate = Some (Inr (st, error_num)) \<and>
             permutation_of r st)) \<and>
   (generate_random_pair_from_proteins euclidean_distances norm2 g p latent_embedding num ML CL = Some (Inr r)
      \<longrightarrow> (\<exists>st. proteins_sampling euclidean_distances norm2 g latent_embedding num ML CL = Some (Inr st) \<and>
             permutation_of r st)) \<and>
   (generate_random_pair_from_two_CDs g p latent_embedding num LC HC = Some (Inr r)
      \<longrightarrow> (\<exists>st. two_CDs_sampling g latent_embedding num LC HC = Some (Inr st) \<and>
             permutation_of r st)) \<and>
   (generate_random_pair_from_one_CD g p latent_embedding num LC HC gene = Some (Inr r)
      \<longrightarrow> (\<exists>st. one_CD_sampling g latent_embedding num LC HC gene = Some (Inr st) \<and>
             permutation_of r st)) \<and>
   (generate_random_pair_from_CD_markers g p markers num low1 high1 low2 high2 = Some (Inr r)
      \<longrightarrow> (\<exists>st. CD_markers_sampling g markers num low1 high1 low2 high2 = Some (Inr st) \<and>
             permutation_of r st)) \<and>
   (generate_random_pair_from_embedding_clustering euclidean_distances norm2 g p latent_embedding y_pred num ML CL = Some (Inr r)
      \<longrightarrow> (\<exists>st. embedding_clustering_sampling euclidean_distances norm2 g latent_embedding y_pred num ML CL = Some (Inr st) \<and>
             permutation_of r st))"
  by (intro conjI impI)
    (blast dest: generate_random_pair_sampled generate_random_pair_from_proteins_sampled
      generate_random_pair_from_two_CDs_sampled generate_random_pair_from_one_CD_sampled
      generate_random_pair_from_CD_markers_sampled
      generate_random_pair_from_embedding_clustering_sampled)+

theorem returned_pairs_permute_accepted_witness:
  "generate_random_pair (cycle [0, 1, 0, 1, 1, 0]) (sconst 0) [0, 0, 0] [0, 1, 2] 2 0 =
     Some (Inr (\<lparr>ml_ind1 = [1, 0], ml_ind2 = [0, 1], cl_ind1 = [], cl_ind2 = []\<rparr>, 0)) \<and>
   (\<exists>st. random_pair_sampling (cycle [0, 1, 0, 1, 1, 0]) [0, 0, 0] [0, 1, 2] 2 0 = Some (Inr (st, 0)) \<and>
      permutation_of \<lparr>ml_ind1 = [1, 0], ml_ind2 = [0, 1], cl_ind1 = [], cl_ind2 = []\<rparr> st) \<and>
   generate_random_pair_from_proteins exact_distances norm2_diff (cycle [0, 1, 2]) (sconst 0) line3 2 (3/4) (3/4) =
     Some (Inr \<lparr>ml_ind1 = [0], ml_ind2 = [1], cl_ind1 = [2], cl_ind2 = [0]\<rparr>) \<and>
   (\<exists>st. proteins_sampling exact_distances norm2_diff (cycle [0, 1, 2]) line3 2 (3/4) (3/4) = Some (Inr st) \<and>
      permutation_of \<lparr>ml_ind1 = [0], ml_ind2 = [1], cl_ind1 = [2], cl_ind2 = [0]\<rparr> st) \<and>
   generate_random_pair_from_two_CDs (cycle [0, 1, 2, 0]) (sconst 0) quad4 2 50 50 =
     Some (Inr \<lparr>ml_ind1 = [0], ml_ind2 = [1], cl_ind1 = [2], cl_ind2 = [0]\<rparr>) \<and>
   (\<exists>st. two_CDs_sampling (cycle [0, 1, 2, 0]) quad4 2 50 50 = Some (Inr st) \<and>
      permutation_of \<lparr>ml_ind1 = [0], ml_ind2 = [1], cl_ind1 = [2], cl_ind2 = [0]\<rparr> st) \<and>
   generate_random_pair_from_one_CD (cycle [2, 3, 2, 0]) (sconst 0) ramp4 2 50 50 0 =
     Some (Inr \<lparr>ml_ind1 = [2], ml_ind2 = [3], cl_ind1 = [2], cl_ind2 = [0]\<rparr>) \<and>
   (\<exists>st. one_CD_sampling (cycle [2, 3, 2, 0]) ramp4 2 50 50 0 = Some (Inr st) \<and>
      permutation_of \<lparr>ml_ind1 = [2], ml_ind2 = [3], cl_ind1 = [2], cl_ind2 = [0]\<rparr> st) \<and>
   generate_random_pair_from_CD_markers (cycle [0, 1, 2, 0]) (sconst 0) markers3 2 (1/2) (1/2) 0 0 =
     Some (Inr \<lparr>ml_ind1 = [0], ml_ind2 = [1], cl_ind1 = [2], cl_ind2 = [0]\<rparr>) \<and>
   (\<exists>st. CD_markers_sampling (cycle [0, 1, 2, 0]) markers3 2 (1/2) (1/2) 0 0 = Some (Inr st) \<and>
      permutation_of \<lparr>ml_ind1 = [0], ml_ind2 = [1], cl_ind1 = [2], cl_ind2 = [0]\<rparr> st) \<and>
   generate_random_pair_from_embedding_clustering exact_distances norm2_diff (cycle [0, 1, 2]) (sconst 0) line3 ((!) [0, 0, 1]) 2 (3/4) (3/4) =
     Some (Inr \<lparr>ml_ind1 = [0], ml_ind2 = [1], cl_ind1 = [2], cl_ind2 = [0]\<rparr>) \<and>
   (\<exists>st. embedding_clustering_sampling exact_distances norm2_diff (cycle [0, 1, 2]) line3 ((!) [0, 0, 1]) 2 (3/4) (3/4) = Some (Inr st) \<and>
      permutation_of \<lparr>ml_ind1 = [0], ml_ind2 = [1], cl_ind1 = [2], cl_ind2 = [0]\<rparr> st)"
  using returned_pairs_permute_accepted[THEN conj6(1), THEN mp, OF run_generate_random_pair]
    returned_pairs_permute_accepted[THEN conj6(2), THEN mp, OF run_generate_random_pair_from_proteins]
    returned_pairs_permute_accepted[THEN conj6(3), THEN mp, OF run_generate_random_pair_from_two_CDs]
    returned_pairs_permute_accepted[THEN conj6(4), THEN mp, OF run_generate_random_pair_from_one_CD]
    returned_pairs_permute_accepted[THEN conj6(5), THEN mp, OF run_generate_random_pair_from_CD_markers]
    returned_pairs_permute_accepted[THEN conj6(6), THEN mp, OF run_generate_random_pair_from_embedding_clustering]
    run_generate_random_pair run_generate_random_pair_from_proteins run_generate_random_pair_from_two_CDs run_generate_random_pair_from_one_CD run_generate_random_pair_from_CD_markers run_generate_random_pair_from_embedding_clustering
  by simp







lemma decide_CD_markers_first_match:
  "decide_CD_markers markers q = first_match marker_table markers q"
  by (intro ext) (simp add: decide_CD_markers_def marker_table_def)

lemma marker_thresholds_276:
  "marker_thresholds markers_276 (2/5) (3/5) (1/5) (4/5) = Inr cutoffs11"
  by (simp add: marker_thresholds_def bind_err_def np_row_def np_row_index_def row_of_def
      np_quantile_def markers_276_def cutoffs11_def Let_def upt_rec numeral_eq_Suc)

lemma marker_thresholds_279:
  "marker_thresholds markers_279 (2/5) (3/5) (1/5) (4/5) = Inr cutoffs11"
  by (simp add: marker_thresholds_def bind_err_def np_row_def np_row_index_def row_of_def
      np_quantile_def markers_279_def cutoffs11_def Let_def upt_rec numeral_eq_Suc)

lemma marker_thresholds_282:
  "marker_thresholds markers_282 (2/5) (3/5) (1/5) (4/5) = Inr cutoffs11"
  by (simp add: marker_thresholds_def bind_err_def np_row_def np_row_index_def row_of_def
      np_quantile_def markers_282_def cutoffs11_def Let_def upt_rec numeral_eq_Suc)

lemma marker_thresholds_285:
  "marker_thresholds markers_285 (2/5) (3/5) (1/5) (4/5) = Inr cutoffs11"
  by (simp add: marker_thresholds_def bind_err_def np_row_def np_row_index_def row_of_def
      np_quantile_def markers_285_def cutoffs11_def Let_def upt_rec numeral_eq_Suc)

lemma marker_thresholds_288:
  "marker_thresholds markers_288 (2/5) (3/5) (1/5) (4/5) = Inr cutoffs11"
  by (simp add: marker_thresholds_def bind_err_def np_row_def np_row_index_def row_of_def
      np_quantile_def markers_288_def cutoffs11_def Let_def upt_rec numeral_eq_Suc)

lemma run_CD_markers_sampling_288:
  "CD_markers_sampling (cycle [0, 1]) markers_288 1 (2/5) (3/5) (1/5) (4/5) =
     Some (Inr \<lparr>ml_ind1 = [0], ml_ind2 = [1], cl_ind1 = [], cl_ind2 = []\<rparr>)"
  unfolding CD_markers_sampling_def marker_thresholds_288
  apply simp
  apply (subst sample_loop.simps, simp add: step_eval decide_CD_markers_def cond_defs
      markers_288_def cutoffs11_def fgt_def flt_def)
  apply (subst sample_loop.simps, simp add: step_eval)
  done

lemma run_generate_random_pair_from_CD_markers_288:
  "generate_random_pair_from_CD_markers (cycle [0, 1]) p markers_288 1 (2/5) (3/5) (1/5) (4/5) =
     Some (Inr \<lparr>ml_ind1 = [0], ml_ind2 = [1], cl_ind1 = [], cl_ind2 = []\<rparr>)"
  unfolding generate_random_pair_from_CD_markers_def run_CD_markers_sampling_288
  by (simp add: finish_def permute_pairs_def np_permutation_1 np_permutation_0 np_take_def)

lemma generate_random_pair_from_CD_markers_decided:
  assumes "generate_random_pair_from_CD_markers g p markers num low1 high1 low2 high2 = Some (Inr r)"
  shows "\<exists>q. marker_thresholds markers low1 high1 low2 high2 = Inr q \<and>
           decided (decide_CD_markers markers q) r"
proof -
  from generate_random_pair_from_CD_markers_sampled[OF assms] obtain st where
    s: "CD_markers_sampling g markers num low1 high1 low2 high2 = Some (Inr st)" and
    pm: "permutation_of r st"
    by blast
  from s obtain q where
    q: "marker_thresholds markers low1 high1 low2 high2 = Inr q" and
    l: "sample_loop (decide_CD_markers markers q) (shape1 markers) g num no_pairs = Some (Inr st)"
    by (auto simp: CD_markers_sampling_def split: sum.splits)
  from sample_loop_inv[OF l pairs_inv_no_pairs decided_no_pairs]
  have "decided (decide_CD_markers markers q) st" by blast
  with permutation_of_decided[OF pm] q show ?thesis by blast
qed

text \<open>
  \<^bold>\<open>C5\<close> (as amended). \<^verbatim>\<open>generate_random_pair_from_CD_markers\<close> classifies a
  candidate by a fixed table of seven conditions on the markers, tried in the order of
  the source: the first two give a cannot-link pair, the next five a must-link pair; the
  first condition that holds decides, and a candidate for which none holds is rejected.
  Every pair that the generator returns is in the list that the table assigns to it
  under the cutoffs computed from the markers.
\<close>

theorem CD_markers_decision_table:
  "decide_CD_markers markers q tmp1 tmp2 = first_match marker_table markers q tmp1 tmp2 \<and>
   map snd marker_table =
     [CannotLink, CannotLink, MustLink, MustLink, MustLink, MustLink, MustLink] \<and>
   map fst marker_table =
     [cond_270, cond_273, cond_276, cond_279, cond_282, cond_285, cond_288] \<and>
   CD_markers_sampling g markers num low1 high1 low2 high2 =
     (case marker_thresholds markers low1 high1 low2 high2 of
        Inl e \<Rightarrow> Some (Inl e)
      | Inr q \<Rightarrow> sample_loop (first_match marker_table markers q) (shape1 markers) g num no_pairs) \<and>
   (generate_random_pair_from_CD_markers g p markers num low1 high1 low2 high2 = Some (Inr r) \<longrightarrow>
      (\<exists>q. marker_thresholds markers low1 high1 low2 high2 = Inr q \<and>
         (\<forall>(i, j) \<in> set (zip (ml_ind1 r) (ml_ind2 r)).
            first_match marker_table markers q i j = MustLink) \<and>
         (\<forall>(i, j) \<in> set (zip (cl_ind1 r) (cl_ind2 r)).
            first_match marker_table markers q i j = CannotLink)))"
proof -
  have "CD_markers_sampling g markers num low1 high1 low2 high2 =
     (case marker_thresholds markers low1 high1 low2 high2 of
        Inl e \<Rightarrow> Some (Inl e)
      | Inr q \<Rightarrow> sample_loop (first_match marker_table markers q) (shape1 markers) g num no_pairs)"
    by (simp add: CD_markers_sampling_def decide_CD_markers_first_match cong: sum.case_cong)
  moreover have "decide_CD_markers markers q tmp1 tmp2 = first_match marker_table markers q tmp1 tmp2"
    by (simp add: decide_CD_markers_first_match)
  moreover have "map snd marker_table =
     [CannotLink, CannotLink, MustLink, MustLink, MustLink, MustLink, MustLink]"
    "map fst marker_table =
     [cond_270, cond_273, cond_276, cond_279, cond_282, cond_285, cond_288]"
    by (simp_all add: marker_table_def)
  moreover have "\<exists>q. marker_thresholds markers low1 high1 low2 high2 = Inr q \<and>
         (\<forall>(i, j) \<in> set (zip (ml_ind1 r) (ml_ind2 r)).
            first_match marker_table markers q i j = MustLink) \<and>
         (\<forall>(i, j) \<in> set (zip (cl_ind1 r) (cl_ind2 r)).
            first_match marker_table markers q i j = CannotLink)"
    if "generate_random_pair_from_CD_markers g p markers num low1 high1 low2 high2 = Some (Inr r)"
    using generate_random_pair_from_CD_markers_decided[OF that]
    by (auto simp: decided_def decide_CD_markers_first_match)
  ultimately show ?thesis by blast
qed

theorem CD_markers_decision_table_witness:
  "generate_random_pair_from_CD_markers (cycle [0, 1]) (sconst 0) markers_288 1
       (2/5) (3/5) (1/5) (4/5) =
     Some (Inr \<lparr>ml_ind1 = [0], ml_ind2 = [1], cl_ind1 = [], cl_ind2 = []\<rparr>) \<and>
   marker_thresholds markers_288 (2/5) (3/5) (1/5) (4/5) = Inr cutoffs11 \<and>
   first_match marker_table markers_288 cutoffs11 0 1 = MustLink"
proof -
  from CD_markers_decision_table[THEN conjunct2, THEN conjunct2, THEN conjunct2, THEN conjunct2,
      THEN mp, OF run_generate_random_pair_from_CD_markers_288]
  obtain q where "marker_thresholds markers_288 (2/5) (3/5) (1/5) (4/5) = Inr q"
    "first_match marker_table markers_288 q 0 1 = MustLink"
    by auto
  with marker_thresholds_288 run_generate_random_pair_from_CD_markers_288
  show ?thesis by simp
qed

text \<open>The table has seven rows, five of them must-link, and none of the five can be
  left out: on each of the five matrices the default quantiles give the cutoffs
  \<open>cutoffs11\<close>, the chain accepts the pair \<open>(0, 1)\<close> as must-link, and the table without
  the row of that matrix rejects it. The generator run on \<open>markers_288\<close> returns the pair
  accepted through the seventh condition.\<close>

theorem six_patterns_counterexample:
  "length marker_table \<noteq> 6 \<and>
   count_list (map snd marker_table) MustLink \<noteq> 4 \<and>
   marker_thresholds markers_276 (2/5) (3/5) (1/5) (4/5) = Inr cutoffs11 \<and>
   decide_CD_markers markers_276 cutoffs11 0 1 = MustLink \<and>
   first_match (take 2 marker_table @ drop 3 marker_table) markers_276 cutoffs11 0 1 = Reject \<and>
   marker_thresholds markers_279 (2/5) (3/5) (1/5) (4/5) = Inr cutoffs11 \<and>
   decide_CD_markers markers_279 cutoffs11 0 1 = MustLink \<and>
   first_match (take 3 marker_table @ drop 4 marker_table) markers_279 cutoffs11 0 1 = Reject \<and>
   marker_thresholds markers_282 (2/5) (3/5) (1/5) (4/5) = Inr cutoffs11 \<and>
   decide_CD_markers markers_282 cutoffs11 0 1 = MustLink \<and>
   first_match (take 4 marker_table @ drop 5 marker_table) markers_282 cutoffs11 0 1 = Reject \<and>
   marker_thresholds markers_285 (2/5) (3/5) (1/5) (4/5) = Inr cutoffs11 \<and>
   decide_CD_markers markers_285 cutoffs11 0 1 = MustLink \<and>
   first_match (take 5 marker_table @ drop 6 marker_table) markers_285 cutoffs11 0 1 = Reject \<and>
   marker_thresholds markers_288 (2/5) (3/5) (1/5) (4/5) = Inr cutoffs11 \<and>
   decide_CD_markers markers_288 cutoffs11 0 1 = MustLink \<and>
   first_match (take 6 marker_table @ drop 7 marker_table) markers_288 cutoffs11 0 1 = Reject \<and>
   generate_random_pair_from_CD_markers (cycle [0, 1]) (sconst 0) markers_288 1
       (2/5) (3/5) (1/5) (4/5) =
     Some (Inr \<lparr>ml_ind1 = [0], ml_ind2 = [1], cl_ind1 = [], cl_ind2 = []\<rparr>)"
proof -
  have "length marker_table \<noteq> 6" "count_list (map snd marker_table) MustLink \<noteq> 4"
    by (simp_all add: marker_table_def)
  moreover have "decide_CD_markers markers_276 cutoffs11 0 1 = MustLink"
    "first_match (take 2 marker_table @ drop 3 marker_table) markers_276 cutoffs11 0 1 = Reject"
    by (simp_all add: decide_CD_markers_def marker_table_def cond_defs markers_276_def
        cutoffs11_def fgt_def flt_def)
  moreover have "decide_CD_markers markers_279 cutoffs11 0 1 = MustLink"
    "first_match (take 3 marker_table @ drop 4 marker_table) markers_279 cutoffs11 0 1 = Reject"
    by (simp_all add: decide_CD_markers_def marker_table_def cond_defs markers_279_def
        cutoffs11_def fgt_def flt_def)
  moreover have "decide_CD_markers markers_282 cutoffs11 0 1 = MustLink"
    "first_match (take 4 marker_table @ drop 5 marker_table) markers_282 cutoffs11 0 1 = Reject"
    by (simp_all add: decide_CD_markers_def marker_table_def cond_defs markers_282_def
        cutoffs11_def fgt_def flt_def)
  moreover have "decide_CD_markers markers_285 cutoffs11 0 1 = MustLink"
    "first_match (take 5 marker_table @ drop 6 marker_table) markers_285 cutoffs11 0 1 = Reject"
    by (simp_all add: decide_CD_markers_def marker_table_def cond_defs markers_285_def
        cutoffs11_def fgt_def flt_def)
  moreover have "decide_CD_markers markers_288 cutoffs11 0 1 = MustLink"
    "first_match (take 6 marker_table @ drop 7 marker_table) markers_288 cutoffs11 0 1 = Reject"
    by (simp_all add: decide_CD_markers_def marker_table_def cond_defs markers_288_def
        cutoffs11_def fgt_def flt_def)
  ultimately show ?thesis
    using marker_thresholds_276 marker_thresholds_279 marker_thresholds_282
      marker_thresholds_285 marker_thresholds_288
      run_generate_random_pair_from_CD_markers_288[of "sconst 0"]
    by blast
qed

lemma random_pair_loop_singleton_pool:
  assumes "0 < num"
  shows "random_pair_loop y [x] er num0 g num en st = None"
proof (rule ccontr)
  assume "random_pair_loop y [x] er num0 g num en st \<noteq> None"
  then obtain r where "random_pair_loop y [x] er num0 g num en st = Some r" by blast
  then have "[x] = [x] \<longrightarrow> 0 < num \<longrightarrow> False"
  proof (induction y "[x]" er num0 g num en st r rule: random_pair_loop_induct)
    case (step loop y er num0 g num en st r)
    show ?case
    proof (intro impI)
      assume "0 < num"
      with step(2) have "loop y [x] er num0 (stl (stl g)) num en st = Some r"
        by (simp add: random_choice_def)
      from step(1)[OF this] \<open>0 < num\<close> show False by simp
    qed
  qed
  with assms show False by simp
qed

lemma sample_loop_all_rejected:
  assumes "\<And>i j. decide i j = Reject" and "0 < num" and "0 < n"
  shows "sample_loop decide n g num st = None"
proof (rule ccontr)
  assume "sample_loop decide n g num st \<noteq> None"
  then obtain r where "sample_loop decide n g num st = Some r" by blast
  then have "(\<forall>i j. decide i j = Reject) \<longrightarrow> 0 < num \<longrightarrow> 0 < n \<longrightarrow> False"
  proof (induction rule: sample_loop_induct)
    case (step loop decide n g num st r)
    show ?case
    proof (intro impI)
      assume rej: "\<forall>i j. decide i j = Reject" and "0 < num" and "0 < n"
      with step(2) have "loop decide n (stl (stl g)) num st = Some r"
        by (simp add: random_randint_def split: if_splits)
      from step(1)[OF this] rej \<open>0 < num\<close> \<open>0 < n\<close> show False by simp
    qed
  qed
  with assms show False by simp
qed

lemma marker_thresholds_zeros42:
  "marker_thresholds zeros42 (2/5) (3/5) (1/5) (4/5) =
     Inr \<lparr>gene_low1 = Some 0, gene_high1 = Some 0, gene_low2 = Some 0, gene_high2 = Some 0,
          gene_low1_ml = Some 0, gene_high1_ml = Some 0, gene_low2_ml = Some 0,
          gene_high2_ml = Some 0, gene_low3 = Some 0, gene_high3 = Some 0,
          gene_low4 = Some 0, gene_high4 = Some 0\<rparr>"
  by (simp add: marker_thresholds_def bind_err_def np_row_def np_row_index_def row_of_def
      np_quantile_def zeros42_def Let_def upt_rec numeral_eq_Suc)

text \<open>
  \<^bold>\<open>C1\<close> (not met by the code). \<^verbatim>\<open>generate_random_pair\<close> asked for one
  pair from the pool \<open>[0]\<close> never returns, whatever the random streams: both draws are
  \<open>0\<close>, the candidate is a self-pair, and nothing bounds the attempts. Neither does
  \<^verbatim>\<open>generate_random_pair_from_CD_markers\<close> with its default quantiles on markers that
  are all zero, where no condition of the chain can hold.
\<close>

theorem uncapped_generators_hang:
  "generate_random_pair g p [0] [0] 1 0 = None \<and>
   generate_random_pair_from_CD_markers g p zeros42 1 (2/5) (3/5) (1/5) (4/5) = None"
proof
  show "generate_random_pair g p [0] [0] 1 0 = None"
    by (simp add: generate_random_pair_def random_pair_sampling_def
        random_pair_loop_singleton_pool)
next
  let ?q = "\<lparr>gene_low1 = Some 0, gene_high1 = Some 0, gene_low2 = Some 0, gene_high2 = Some 0,
          gene_low1_ml = Some 0, gene_high1_ml = Some 0, gene_low2_ml = Some 0,
          gene_high2_ml = Some 0, gene_low3 = Some 0, gene_high3 = Some (0::real),
          gene_low4 = Some 0, gene_high4 = Some 0\<rparr>"
  have "decide_CD_markers zeros42 ?q i j = Reject" for i j
    by (simp add: decide_CD_markers_def cond_defs zeros42_def fgt_def flt_def)
  then have "sample_loop (decide_CD_markers zeros42 ?q) (shape1 zeros42) g 1 no_pairs = None"
    by (rule sample_loop_all_rejected) (simp_all add: zeros42_def)
  then show "generate_random_pair_from_CD_markers g p zeros42 1 (2/5) (3/5) (1/5) (4/5) = None"
    by (simp add: generate_random_pair_from_CD_markers_def CD_markers_sampling_def
        marker_thresholds_zeros42 finish_def)
qed


lemma two_CDs_loop_returns: "two_CDs_loop E c g num k st \<noteq> None"
proof (induction "two_CDs_cap - k" arbitrary: k g num st rule: less_induct)
  case less
  show ?case
  proof (cases "num > 0 \<and> k < two_CDs_cap")
    case False
    then show ?thesis by (subst two_CDs_loop.simps) auto
  next
    case True
    then have "two_CDs_cap - (k + 1) < two_CDs_cap - k" by arith
    from less[OF this] have IH: "\<And>g num st. two_CDs_loop E c g num (k + 1) st \<noteq> None" .
    show ?thesis
      apply (subst two_CDs_loop.simps)
      using IH apply (auto split: sum.splits decision.splits)
      done
  qed
qed

lemma one_CD_loop_returns: "one_CD_loop E gene lc1 mc1 g num1 num2 k st \<noteq> None"
proof (induction "one_CD_cap - k" arbitrary: k g num1 num2 st rule: less_induct)
  case less
  show ?case
  proof (cases "(num1 > 0 \<or> num2 > 0) \<and> k < one_CD_cap")
    case False
    then show ?thesis by (subst one_CD_loop.simps) auto
  next
    case True
    then have "one_CD_cap - (k + 1) < one_CD_cap - k" by arith
    from less[OF this] have IH:
      "\<And>g num1 num2 st. one_CD_loop E gene lc1 mc1 g num1 num2 (k + 1) st \<noteq> None" .
    show ?thesis
      apply (subst one_CD_loop.simps)
      using IH apply (auto split: sum.splits)
      done
  qed
qed

lemma finish_None_iff: "finish p x = None \<longleftrightarrow> x = None"
  by (auto simp: finish_def split: option.splits sum.splits)

lemma capped_generators_return:
  "generate_random_pair_from_two_CDs g p E num LC HC \<noteq> None"
  "generate_random_pair_from_one_CD g p E num LC HC gene \<noteq> None"
  using two_CDs_loop_returns one_CD_loop_returns
  by (auto simp: generate_random_pair_from_two_CDs_def two_CDs_sampling_def
      generate_random_pair_from_one_CD_def one_CD_sampling_def finish_None_iff
      split: sum.splits)

lemma total_pairs_append:
  "total_pairs (append_ml t1 t2 st) = total_pairs st + 1"
  "total_pairs (append_cl t1 t2 st) = total_pairs st + 1"
  by (simp_all add: total_pairs_def append_ml_def append_cl_def)

lemma sample_loop_count:
  assumes "sample_loop decide n g num st = Some (Inr st')"
  shows "total_pairs st' = total_pairs st + max num 0"
proof -
  have "\<forall>st'. r = Inr st' \<longrightarrow> total_pairs st' = total_pairs st + max num 0"
    if "sample_loop decide n g num st = Some r" for r
    using that
  proof (induction rule: sample_loop_induct)
    case (step loop decide n g num st r)
    show ?case
    proof (cases "num > 0")
      case False
      with step(2) show ?thesis by auto
    next
      case True
      show ?thesis
      proof (intro allI impI)
        fix st' assume r: "r = Inr st'"
        from step(2) True r consider
          (skip) g2 where "loop decide n g2 num st = Some (Inr st')"
          | (ml) g2 tmp1 tmp2 where
              "loop decide n g2 (num - 1) (append_ml tmp1 tmp2 st) = Some (Inr st')"
          | (cl) g2 tmp1 tmp2 where
              "loop decide n g2 (num - 1) (append_cl tmp1 tmp2 st) = Some (Inr st')"
          by (auto split: if_splits sum.splits decision.splits)
        then show "total_pairs st' = total_pairs st + max num 0"
        proof cases
          case skip
          from step(1)[OF skip] show ?thesis by simp
        next
          case ml
          from step(1)[OF ml] True show ?thesis by (simp add: total_pairs_append)
        next
          case cl
          from step(1)[OF cl] True show ?thesis by (simp add: total_pairs_append)
        qed
      qed
    qed
  qed
  with assms show ?thesis by blast
qed

lemma random_pair_loop_count:
  assumes "random_pair_loop y pool er num0 g num en st = Some (Inr (st', en'))"
  shows "total_pairs st' = total_pairs st + max num 0"
proof -
  have "\<forall>st' en'. r = Inr (st', en') \<longrightarrow> total_pairs st' = total_pairs st + max num 0"
    if "random_pair_loop y pool er num0 g num en st = Some r" for r
    using that
  proof (induction rule: random_pair_loop_induct)
    case (step loop y pool er num0 g num en st r)
    show ?case
    proof (cases "num > 0")
      case False
      with step(2) show ?thesis by auto
    next
      case True
      show ?thesis
      proof (intro allI impI)
        fix st' en' assume r: "r = Inr (st', en')"
        from step(2) True r consider
          (skip) g2 where "loop y pool er num0 g2 num en st = Some (Inr (st', en'))"
          | (ml) g2 en2 tmp1 tmp2 where
              "loop y pool er num0 g2 (num - 1) en2 (append_ml tmp1 tmp2 st) = Some (Inr (st', en'))"
          | (cl) g2 en2 tmp1 tmp2 where
              "loop y pool er num0 g2 (num - 1) en2 (append_cl tmp1 tmp2 st) = Some (Inr (st', en'))"
          by (auto split: if_splits sum.splits)
        then show "total_pairs st' = total_pairs st + max num 0"
        proof cases
          case skip
          from step(1)[OF skip] show ?thesis by simp
        next
          case ml
          from step(1)[OF ml] True show ?thesis by (simp add: total_pairs_append)
        next
          case cl
          from step(1)[OF cl] True show ?thesis by (simp add: total_pairs_append)
        qed
      qed
    qed
  qed
  with assms show ?thesis by blast
qed

lemma two_CDs_loop_count:
  assumes "two_CDs_loop E c g num k st = Some (Inr st')"
  shows "total_pairs st' \<le> total_pairs st + max num 0"
proof -
  have "\<forall>st'. r = Inr st' \<longrightarrow> total_pairs st' \<le> total_pairs st + max num 0"
    if "two_CDs_loop E c g num k st = Some r" for r
    using that
  proof (induction rule: two_CDs_loop_induct)
    case (step loop E c g num k st r)
    show ?case
    proof (cases "num > 0 \<and> k < two_CDs_cap")
      case False
      with step(2) show ?thesis by (auto simp: total_pairs_def)
    next
      case True
      show ?thesis
      proof (intro allI impI)
        fix st' assume r: "r = Inr st'"
        from step(2) True r consider
          (skip) g2 where "loop E c g2 num (k + 1) st = Some (Inr st')"
          | (ml) g2 tmp1 tmp2 where
              "loop E c g2 (num - 1) (k + 1) (append_ml tmp1 tmp2 st) = Some (Inr st')"
          | (cl) g2 tmp1 tmp2 where
              "loop E c g2 (num - 1) (k + 1) (append_cl tmp1 tmp2 st) = Some (Inr st')"
          by (auto split: if_splits sum.splits decision.splits)
        then show "total_pairs st' \<le> total_pairs st + max num 0"
        proof cases
          case skip
          from step(1)[OF skip] show ?thesis by simp
        next
          case ml
          from step(1)[OF ml] True show ?thesis by (simp add: total_pairs_append)
        next
          case cl
          from step(1)[OF cl] True show ?thesis by (simp add: total_pairs_append)
        qed
      qed
    qed
  qed
  with assms show ?thesis by blast
qed

lemma permutation_of_total_pairs:
  assumes "permutation_of r st" and "pairs_inv S st"
  shows "total_pairs r = total_pairs st"
proof -
  from assms have
    l: "length (ml_ind1 r) = length (ml_ind2 r)" "length (cl_ind1 r) = length (cl_ind2 r)"
       "length (ml_ind1 st) = length (ml_ind2 st)" "length (cl_ind1 st) = length (cl_ind2 st)" and
    m: "mset (zip (ml_ind1 r) (ml_ind2 r)) = mset (zip (ml_ind1 st) (ml_ind2 st))" and
    c: "mset (zip (cl_ind1 r) (cl_ind2 r)) = mset (zip (cl_ind1 st) (cl_ind2 st))"
    by (simp_all add: permutation_of_def pairs_inv_def)
  from mset_eq_length[OF m] mset_eq_length[OF c] l show ?thesis
    by (simp add: total_pairs_def)
qed


lemma total_pairs_no_pairs: "total_pairs no_pairs = 0"
  by (simp add: total_pairs_def no_pairs_def)

lemma sibling_generators_count:
  "generate_random_pair g p y pool num er = Some (Inr (r, en)) \<Longrightarrow> total_pairs r = max num 0"
  "generate_random_pair_from_proteins euclidean_distances norm2 g p E num ML CL = Some (Inr r) \<Longrightarrow>
     total_pairs r = max num 0"
  "generate_random_pair_from_CD_markers g p markers num low1 high1 low2 high2 = Some (Inr r) \<Longrightarrow>
     total_pairs r = max num 0"
  "generate_random_pair_from_embedding_clustering euclidean_distances norm2 g p E y_pred num ML CL = Some (Inr r) \<Longrightarrow>
     total_pairs r = max num 0"
  "generate_random_pair_from_two_CDs g p E num LC HC = Some (Inr r) \<Longrightarrow>
     total_pairs r \<le> max num 0"
proof -
  assume "generate_random_pair g p y pool num er = Some (Inr (r, en))"
  from generate_random_pair_sampled[OF this] obtain st where
    s: "random_pair_sampling g y pool num er = Some (Inr (st, en))" and
    pm: "permutation_of r st" "pairs_inv (set pool) st"
    by blast
  from s have "total_pairs st = max num 0"
    unfolding random_pair_sampling_def
    by (auto dest!: random_pair_loop_count simp: total_pairs_no_pairs)
  with permutation_of_total_pairs[OF pm] show "total_pairs r = max num 0" by simp
next
  assume "generate_random_pair_from_proteins euclidean_distances norm2 g p E num ML CL = Some (Inr r)"
  from generate_random_pair_from_proteins_sampled[OF this] obtain st where
    s: "proteins_sampling euclidean_distances norm2 g E num ML CL = Some (Inr st)" and
    pm: "permutation_of r st" "pairs_inv {0..<int (shape0 E)} st"
    by blast
  from s have "total_pairs st = max num 0"
    by (auto simp: proteins_sampling_def total_pairs_no_pairs split: sum.splits
        dest!: sample_loop_count)
  with permutation_of_total_pairs[OF pm] show "total_pairs r = max num 0" by simp
next
  assume "generate_random_pair_from_CD_markers g p markers num low1 high1 low2 high2 = Some (Inr r)"
  from generate_random_pair_from_CD_markers_sampled[OF this] obtain st where
    s: "CD_markers_sampling g markers num low1 high1 low2 high2 = Some (Inr st)" and
    pm: "permutation_of r st" "pairs_inv {0..<int (shape1 markers)} st"
    by blast
  from s have "total_pairs st = max num 0"
    by (auto simp: CD_markers_sampling_def total_pairs_no_pairs split: sum.splits
        dest!: sample_loop_count)
  with permutation_of_total_pairs[OF pm] show "total_pairs r = max num 0" by simp
next
  assume "generate_random_pair_from_embedding_clustering euclidean_distances norm2 g p E y_pred num ML CL = Some (Inr r)"
  from generate_random_pair_from_embedding_clustering_sampled[OF this] obtain st where
    s: "embedding_clustering_sampling euclidean_distances norm2 g E y_pred num ML CL = Some (Inr st)" and
    pm: "permutation_of r st" "pairs_inv {0..<int (shape0 E)} st"
    by blast
  from s have "total_pairs st = max num 0"
    by (auto simp: embedding_clustering_sampling_def total_pairs_no_pairs split: sum.splits
        dest!: sample_loop_count)
  with permutation_of_total_pairs[OF pm] show "total_pairs r = max num 0" by simp
next
  assume "generate_random_pair_from_two_CDs g p E num LC HC = Some (Inr r)"
  from generate_random_pair_from_two_CDs_sampled[OF this] obtain st where
    s: "two_CDs_sampling g E num LC HC = Some (Inr st)" and
    pm: "permutation_of r st" "pairs_inv {0..<int (shape1 E)} st"
    by blast
  from s have "total_pairs st \<le> max num 0"
    by (auto simp: two_CDs_sampling_def total_pairs_no_pairs split: sum.splits
        dest!: two_CDs_loop_count)
  with permutation_of_total_pairs[OF pm] show "total_pairs r \<le> max num 0" by simp
qed

text \<open>
  \<^bold>\<open>C2\<close> (not met by the code). \<^verbatim>\<open>generate_random_pair_from_one_CD\<close>
  asked for one pair returns two: the budgets \<open>num1\<close> and \<open>num2\<close> are both \<open>1/2\<close>, each
  stays positive until one pair of its kind is accepted, and the loop ends after
  two attempts, far from its cap. The other generators keep one integer budget and
  return \<open>num\<close> pairs, or at most \<open>num\<close> under the cap (\<open>sibling_generators_count\<close>).
\<close>

theorem one_CD_returns_more_than_num:
  "generate_random_pair_from_one_CD (cycle [2, 3, 2, 0]) (sconst 0) ramp4 1 50 50 0 =
     Some (Inr \<lparr>ml_ind1 = [2], ml_ind2 = [3], cl_ind1 = [2], cl_ind2 = [0]\<rparr>) \<and>
   total_pairs \<lparr>ml_ind1 = [2], ml_ind2 = [3], cl_ind1 = [2], cl_ind2 = [0]\<rparr> = 2"
  unfolding generate_random_pair_from_one_CD_def run_one_CD_sampling_odd
  by (simp add: finish_def permute_pairs_one_each total_pairs_def)

section \<open>The accuracy evaluator\<close>

subsection \<open>All assignments\<close>

lemma mset_inserts: "zs \<in> set (inserts x ys) \<Longrightarrow> mset zs = add_mset x (mset ys)"
  by (induction ys arbitrary: zs) auto

lemma inserts_head: "x # bs \<in> set (inserts x bs)"
  by (cases bs) simp_all

lemma inserts_mid: "as @ x # bs \<in> set (inserts x (as @ bs))"
  by (induction as) (simp_all add: inserts_head)

lemma perms_Cons_iff:
  "ys \<in> set (perms (x # xs)) \<longleftrightarrow> (\<exists>p \<in> set (perms xs). ys \<in> set (inserts x p))"
  by simp

lemma set_perms: "set (perms xs) = {ys. mset ys = mset xs}"
proof (induction xs)
  case Nil
  then show ?case by simp
next
  case (Cons x xs)
  have IH: "\<And>p. p \<in> set (perms xs) \<longleftrightarrow> mset p = mset xs"
    using Cons.IH by blast
  show ?case
  proof (intro set_eqI iffI)
    fix ys assume "ys \<in> set (perms (x # xs))"
    then obtain p where p: "p \<in> set (perms xs)" "ys \<in> set (inserts x p)"
      unfolding perms_Cons_iff by blast
    from mset_inserts[OF p(2)] p(1) have "mset ys = add_mset x (mset xs)"
      by (simp only: IH)
    then show "ys \<in> {ys. mset ys = mset (x # xs)}" by simp
  next
    fix ys assume "ys \<in> {ys. mset ys = mset (x # xs)}"
    then have m: "mset ys = add_mset x (mset xs)" by simp
    then have "x \<in># mset ys" by simp
    then have "x \<in> set ys" by simp
    then obtain as bs where ys: "ys = as @ x # bs" by (auto dest: split_list)
    with m have "mset (as @ bs) = mset xs" by simp
    then have "as @ bs \<in> set (perms xs)" by (simp only: IH)
    with inserts_mid[of as x bs] show "ys \<in> set (perms (x # xs))"
      unfolding ys perms_Cons_iff by blast
  qed
qed

lemma perms_nonempty: "perms xs \<noteq> []"
proof -
  have "xs \<in> set (perms xs)" by (simp only: set_perms mem_Collect_eq)
  then show ?thesis by (cases "perms xs") simp_all
qed

lemma perms_upt:
  assumes "s \<in> set (perms [0..<D])"
  shows "length s = D" "distinct s" "set s = {..<D}"
proof -
  from assms have m: "mset s = mset [0..<D]" by (simp only: set_perms mem_Collect_eq)
  have "length s = length [0..<D]" by (rule mset_eq_length[OF m])
  then show "length s = D" by simp
  have "distinct s = distinct [0..<D]" by (rule mset_eq_imp_distinct_iff[OF m])
  then show "distinct s" by simp
  have "set s = set [0..<D]" by (rule mset_eq_setD[OF m])
  then show "set s = {..<D}" by (simp add: atLeast0LessThan)
qed

subsection \<open>The contingency matrix\<close>

lemma square_bump:
  assumes "square D w"
  shows "square D (bump i j w)"
proof -
  have "length (w[i := (w ! i)[j := w ! i ! j + 1]] ! a) = D" if "a < D" for a
  proof (cases "a = i")
    case True
    with that assms show ?thesis by (simp add: square_def)
  next
    case False
    with that assms show ?thesis by (simp add: square_def)
  qed
  with assms show ?thesis by (simp add: square_def bump_def)
qed

lemma bump_nth:
  assumes "square D w" "i < D" "j < D" "a < D" "b < D"
  shows "bump i j w ! a ! b = w ! a ! b + (if a = i \<and> b = j then 1 else 0)"
  using assms by (auto simp: square_def bump_def nth_list_update)

lemma fold_bump:
  assumes "square D w0" and "\<forall>(i, j) \<in> set ps. i < D \<and> j < D"
  shows "square D (fold (\<lambda>(i, j) w. bump i j w) ps w0) \<and>
         (\<forall>a < D. \<forall>b < D. fold (\<lambda>(i, j) w. bump i j w) ps w0 ! a ! b =
            w0 ! a ! b + int (count_list ps (a, b)))"
  using assms
proof (induction ps arbitrary: w0)
  case Nil
  then show ?case by simp
next
  case (Cons x ps)
  obtain i j where x: "x = (i, j)" by (cases x)
  with Cons.prems have ij: "i < D" "j < D" by auto
  have sq: "square D (bump i j w0)" using Cons.prems(1) by (rule square_bump)
  from Cons.IH[OF sq] Cons.prems(2)
  have IH: "square D (fold (\<lambda>(i, j) w. bump i j w) ps (bump i j w0))"
    "\<forall>a < D. \<forall>b < D. fold (\<lambda>(i, j) w. bump i j w) ps (bump i j w0) ! a ! b =
            bump i j w0 ! a ! b + int (count_list ps (a, b))"
    by auto
  have "fold (\<lambda>(i, j) w. bump i j w) ps (bump i j w0) ! a ! b =
          w0 ! a ! b + int (count_list ((i, j) # ps) (a, b))" if "a < D" "b < D" for a b
    using IH(2) bump_nth[OF Cons.prems(1) ij that] that by simp
  with IH(1) show ?case by (simp add: x)
qed

lemma square_replicate: "square D (replicate D (replicate D 0))"
  by (simp add: square_def)

lemma contingency_entries:
  assumes "\<forall>(i, j) \<in> set (zip y_pred y_true). i < D \<and> j < D"
  shows "square D (contingency D y_pred y_true)"
    and "\<And>a b. a < D \<Longrightarrow> b < D \<Longrightarrow>
           contingency D y_pred y_true ! a ! b = int (count_list (zip y_pred y_true) (a, b))"
  using fold_bump[OF square_replicate assms] by (simp_all add: contingency_def)

subsection \<open>The assignment chosen\<close>

lemma assigned_total_sum: "assigned_total C s = (\<Sum>i<length C. C ! i ! (s ! i))"
  by (simp add: assigned_total_def interv_sum_list_conv_sum_set_nat atLeast0LessThan)

lemma sum_count_matches:
  assumes "\<forall>(i, j) \<in> set ps. i < D"
  shows "(\<Sum>i<D. int (count_list ps (i, s ! i))) = int (matches ((!) s) ps)"
  using assms
proof (induction ps)
  case Nil
  then show ?case by (simp add: matches_def)
next
  case (Cons x ps)
  obtain p t where x: "x = (p, t)" by (cases x)
  with Cons.prems have p: "p < D" by simp
  have "(\<Sum>i<D. int (count_list (x # ps) (i, s ! i))) =
        (\<Sum>i<D. int (count_list ps (i, s ! i)) + (if i = p then (if s ! p = t then 1 else 0) else 0))"
    by (intro sum.cong) (auto simp: x)
  also have "\<dots> = (\<Sum>i<D. int (count_list ps (i, s ! i))) +
                  (\<Sum>i<D. if i = p then (if s ! p = t then 1 else 0) else 0)"
    by (simp add: sum.distrib)
  also have "(\<Sum>i<D. if i = p then (if s ! p = t then 1 else 0) else 0) =
             (if s ! p = t then 1 else (0::int))"
    using p by (simp add: sum.delta)
  finally show ?case using Cons by (simp add: matches_def x)
qed

lemma assigned_total_matches:
  assumes "square D w"
    and "\<And>a b. a < D \<Longrightarrow> b < D \<Longrightarrow> w ! a ! b = int (count_list ps (a, b))"
    and "\<forall>i<D. s ! i < D" and "\<forall>(i, j) \<in> set ps. i < D"
  shows "assigned_total w s = int (matches ((!) s) ps)"
proof -
  have "assigned_total w s = (\<Sum>i<D. w ! i ! (s ! i))"
    using assms(1) by (simp add: assigned_total_sum square_def)
  also have "\<dots> = (\<Sum>i<D. int (count_list ps (i, s ! i)))"
    using assms(2,3) by (intro sum.cong) simp_all
  finally show ?thesis using sum_count_matches[OF assms(4)] by simp
qed

lemma assigned_total_complement:
  assumes "square D w" and "\<forall>i<D. s ! i < D"
  shows "assigned_total (map (map (\<lambda>x. m - x)) w) s = int D * m - assigned_total w s"
proof -
  have "assigned_total (map (map (\<lambda>x. m - x)) w) s = (\<Sum>i<D. m - w ! i ! (s ! i))"
    unfolding assigned_total_sum using assms
    by (intro sum.cong) (simp_all add: square_def)
  also have "\<dots> = int D * m - (\<Sum>i<D. w ! i ! (s ! i))"
    by (simp add: sum_subtractf)
  finally show ?thesis using assms(1) by (simp add: assigned_total_sum square_def)
qed

lemma zip_upt_nth:
  assumes "length s = n"
  shows "zip [0..<n] s = map (\<lambda>i. (i, s ! i)) [0..<n]"
  using assms by (intro nth_equalityI) simp_all

lemma assigned_sum:
  assumes "square D w" and "s \<in> set (perms [0..<D])"
  shows "(\<Sum>(i, j)\<leftarrow>zip [0..<length w] s. w ! i ! j) = assigned_total w s"
proof -
  have "length w = D" "length s = D"
    using assms perms_upt(1) by (simp_all add: square_def)
  then show ?thesis
    by (simp add: zip_upt_nth assigned_total_def comp_def)
qed

lemma perms_upt_nth:
  assumes "s \<in> set (perms [0..<D])"
  shows "\<forall>i<D. s ! i < D"
  using perms_upt[OF assms] by (metis lessThan_iff nth_mem)

lemma linear_assignment_optimal:
  fixes m :: int
  assumes "square D w"
  defines "best \<equiv> arg_min_list (assigned_total (map (map (\<lambda>x. m - x)) w)) (perms [0..<D])"
  shows "best \<in> set (perms [0..<D])"
    and "\<And>s. s \<in> set (perms [0..<D]) \<Longrightarrow> assigned_total w s \<le> assigned_total w best"
proof -
  let ?C = "map (map (\<lambda>x. m - x)) w"
  show b: "best \<in> set (perms [0..<D])"
    unfolding best_def by (rule arg_min_list_in) (rule perms_nonempty)
  fix s assume s: "s \<in> set (perms [0..<D])"
  have "assigned_total ?C best = Min (assigned_total ?C ` set (perms [0..<D]))"
    unfolding best_def by (rule f_arg_min_list_f) (rule perms_nonempty)
  also have "\<dots> \<le> assigned_total ?C s"
    using s by (intro Min_le) simp_all
  finally show "assigned_total w s \<le> assigned_total w best"
    using assigned_total_complement[OF assms(1) perms_upt_nth[OF s], of m]
      assigned_total_complement[OF assms(1) perms_upt_nth[OF b], of m]
    by simp
qed


lemma labels_below:
  fixes y_pred y_true :: "nat list"
  assumes "length y_pred = length y_true"
  defines "D \<equiv> max (Max (set y_pred)) (Max (set y_true)) + 1"
  shows "\<forall>(i, j) \<in> set (zip y_pred y_true). i < D \<and> j < D"
proof -
  have "i < D \<and> j < D" if "(i, j) \<in> set (zip y_pred y_true)" for i j
  proof -
    from that have "i \<in> set y_pred" "j \<in> set y_true"
      by (auto dest: set_zip_leftD set_zip_rightD)
    then have "i \<le> Max (set y_pred)" "j \<le> Max (set y_true)" by simp_all
    then show ?thesis unfolding D_def by linarith
  qed
  then show ?thesis by blast
qed

lemma cluster_acc_value:
  assumes len: "length y_pred = length y_true" and ne: "y_pred \<noteq> []"
  defines "D \<equiv> max (Max (set y_pred)) (Max (set y_true)) + 1"
  defines "w \<equiv> contingency D y_pred y_true"
  shows "cluster_acc y_true y_pred =
           Inr (real_of_int (Max (assigned_total w ` set (perms [0..<D]))) / real (length y_pred))"
    and "assigned_total w ` set (perms [0..<D]) =
           (\<lambda>s. int (matches ((!) s) (zip y_pred y_true))) ` set (perms [0..<D])"
proof -
  let ?ps = "zip y_pred y_true"
  let ?m = "Max (set (concat w))"
  let ?P = "set (perms [0..<D])"
  have lab: "\<forall>(i, j) \<in> set ?ps. i < D \<and> j < D"
    unfolding D_def by (rule labels_below[OF len])
  then have lab1: "\<forall>(i, j) \<in> set ?ps. i < D" by blast
  have sq: "square D w" and ent: "\<And>a b. a < D \<Longrightarrow> b < D \<Longrightarrow> w ! a ! b = int (count_list ?ps (a, b))"
    unfolding w_def using contingency_entries[OF lab] by blast+
  have tm: "assigned_total w s = int (matches ((!) s) ?ps)" if "s \<in> ?P" for s
    using assigned_total_matches[OF sq ent perms_upt_nth[OF that] lab1] by simp
  then show "assigned_total w ` ?P = (\<lambda>s. int (matches ((!) s) ?ps)) ` ?P"
    by (intro image_cong) simp_all
  define best where "best = arg_min_list (assigned_total (map (map (\<lambda>x. ?m - x)) w)) (perms [0..<D])"
  have b: "best \<in> ?P" and opt: "\<And>s. s \<in> ?P \<Longrightarrow> assigned_total w s \<le> assigned_total w best"
    unfolding best_def using linear_assignment_optimal[OF sq, where m = ?m] by blast+
  have "Max (assigned_total w ` ?P) = assigned_total w best"
    using b opt by (intro Max_eqI) auto
  moreover have "(\<Sum>(i, j)\<leftarrow>linear_assignment (map (map (\<lambda>x. ?m - x)) w). w ! i ! j) = assigned_total w best"
    using assigned_sum[OF sq b] sq by (simp add: linear_assignment_def best_def square_def)
  ultimately show "cluster_acc y_true y_pred =
           Inr (real_of_int (Max (assigned_total w ` ?P)) / real (length y_pred))"
    using len ne unfolding cluster_acc_def Let_def D_def[symmetric] w_def[symmetric]
    by simp
qed

lemma matches_le: "matches f ps \<le> length ps"
  by (simp add: matches_def)

lemma cluster_acc_bounds:
  assumes len: "length y_pred = length y_true" and ne: "y_pred \<noteq> []"
  defines "D \<equiv> max (Max (set y_pred)) (Max (set y_true)) + 1"
  defines "w \<equiv> contingency D y_pred y_true"
  shows "0 \<le> Max (assigned_total w ` set (perms [0..<D]))"
    and "Max (assigned_total w ` set (perms [0..<D])) \<le> int (length y_pred)"
proof -
  let ?ps = "zip y_pred y_true"
  let ?P = "set (perms [0..<D])"
  have eq: "assigned_total w ` ?P = (\<lambda>s. int (matches ((!) s) ?ps)) ` ?P"
    unfolding w_def D_def by (rule cluster_acc_value(2)[OF len ne])
  have "?P \<noteq> {}"
    using perms_nonempty[of "[0..<D]"] by (simp only: set_empty not_False_eq_True)
  then have fin: "finite (assigned_total w ` ?P)" "assigned_total w ` ?P \<noteq> {}"
    by simp_all
  have bnd: "\<forall>x \<in> assigned_total w ` ?P. 0 \<le> x \<and> x \<le> int (length y_pred)"
    unfolding eq using matches_le[of _ ?ps] len by auto
  from Max_in[OF fin] bnd
  show "0 \<le> Max (assigned_total w ` ?P)" "Max (assigned_total w ` ?P) \<le> int (length y_pred)"
    by blast+
qed

lemma run_cluster_acc: "cluster_acc [0, 0, 1, 1] [1, 1, 0, 0] = Inr 1"
  by (simp add: cluster_acc_def contingency_def bump_def linear_assignment_def
      assigned_total_def Let_def upt_rec)

text \<open>
  \<^bold>\<open>C9\<close> (as amended). \<^verbatim>\<open>cluster_acc\<close> fails with an assertion failure exactly when
  the two label vectors differ in size, and no other check is made. For label vectors
  of one size that are not empty it returns a value of \<open>[0, 1]\<close>: the greatest sum of
  co-occurrence counts that a one-to-one assignment of predicted to true labels selects,
  divided by the number of samples.
\<close>

theorem cluster_acc_contract:
  "(cluster_acc y_true y_pred = Inl AssertionError \<longleftrightarrow> length y_pred \<noteq> length y_true) \<and>
   (length y_pred = length y_true \<and> y_pred \<noteq> [] \<longrightarrow>
      (\<exists>a. cluster_acc y_true y_pred = Inr a \<and> 0 \<le> a \<and> a \<le> 1 \<and>
           a = real_of_int
                 (Max (assigned_total
                         (contingency (max (Max (set y_pred)) (Max (set y_true)) + 1) y_pred y_true)
                       ` set (perms [0..<max (Max (set y_pred)) (Max (set y_true)) + 1])))
               / real (length y_pred)))"
proof (intro conjI impI)
  show "cluster_acc y_true y_pred = Inl AssertionError \<longleftrightarrow> length y_pred \<noteq> length y_true"
    by (simp add: cluster_acc_def Let_def)
next
  assume "length y_pred = length y_true \<and> y_pred \<noteq> []"
  then have len: "length y_pred = length y_true" and ne: "y_pred \<noteq> []" by simp_all
  let ?M = "Max (assigned_total
                  (contingency (max (Max (set y_pred)) (Max (set y_true)) + 1) y_pred y_true)
                ` set (perms [0..<max (Max (set y_pred)) (Max (set y_true)) + 1]))"
  have n: "0 < real (length y_pred)" using ne by simp
  have "0 \<le> ?M" "?M \<le> int (length y_pred)"
    using cluster_acc_bounds[OF len ne] by blast+
  then have "0 \<le> real_of_int ?M / real (length y_pred)"
    "real_of_int ?M / real (length y_pred) \<le> 1"
    using n by (simp_all add: divide_le_eq_1)
  with cluster_acc_value(1)[OF len ne]
  show "\<exists>a. cluster_acc y_true y_pred = Inr a \<and> 0 \<le> a \<and> a \<le> 1 \<and>
          a = real_of_int ?M / real (length y_pred)"
    by blast
qed

theorem cluster_acc_contract_witness:
  "length [1, 1, 0, 0 :: nat] = length [0, 0, 1, 1 :: nat] \<and> [1, 1, 0, 0 :: nat] \<noteq> [] \<and>
   cluster_acc [0, 0, 1, 1] [1, 1, 0, 0] = Inr 1 \<and>
   cluster_acc [0, 0, 1, 1] [1, 1, 0, 0] \<noteq> Inl AssertionError \<and>
   (\<exists>a. cluster_acc [0, 0, 1, 1] [1, 1, 0, 0] = Inr a \<and> 0 \<le> a \<and> a \<le> 1)"
proof -
  have h: "length [1, 1, 0, 0 :: nat] = length [0, 0, 1, 1 :: nat] \<and> [1, 1, 0, 0 :: nat] \<noteq> []"
    by simp
  from cluster_acc_contract[of "[0, 0, 1, 1]" "[1, 1, 0, 0]", THEN conjunct2, THEN mp, OF h]
  have "\<exists>a. cluster_acc [0, 0, 1, 1] [1, 1, 0, 0] = Inr a \<and> 0 \<le> a \<and> a \<le> 1"
    by blast
  moreover from cluster_acc_contract[of "[0, 0, 1, 1]" "[1, 1, 0, 0]", THEN conjunct1]
  have "cluster_acc [0, 0, 1, 1] [1, 1, 0, 0] \<noteq> Inl AssertionError"
    by simp
  ultimately show ?thesis using run_cluster_acc h by blast
qed

text \<open>Two empty label vectors have one size, and \<^verbatim>\<open>cluster_acc\<close> raises on them: the
  maximum of an empty array does not exist.\<close>

theorem cluster_acc_empty_counterexample:
  "length ([] :: nat list) = length ([] :: nat list) \<and> cluster_acc [] [] = Inl ValueError"
  by (simp add: cluster_acc_def)

subsection \<open>Relabelling the predicted clusters\<close>

lemma matches_cong:
  assumes "\<forall>(i, j) \<in> set ps. f i = g i"
  shows "matches f ps = matches g ps"
proof -
  have "filter (\<lambda>(i, j). f i = j) ps = filter (\<lambda>(i, j). g i = j) ps"
    using assms by (intro filter_cong) auto
  then show ?thesis by (simp add: matches_def)
qed

lemma length_filter_mono:
  assumes "\<forall>x \<in> set xs. P x \<longrightarrow> Q x"
  shows "length (filter P xs) \<le> length (filter Q xs)"
  using assms by (induction xs) auto

lemma matches_relabel:
  "matches f (map (\<lambda>(i, j). (h i, j)) ps) = matches (f \<circ> h) ps"
proof -
  have "(\<lambda>(i, j). f i = j) \<circ> (\<lambda>(i, j). (h i, j)) = (\<lambda>(i, j). (f \<circ> h) i = j)"
    by (auto simp: fun_eq_iff)
  then show ?thesis by (simp add: matches_def filter_map)
qed

lemma reachable_finite: "finite (reachable n ps)"
proof (rule finite_subset)
  show "reachable n ps \<subseteq> {..length ps}"
    by (auto simp: reachable_def matches_le)
qed simp

lemma reachable_nonempty: "reachable n ps \<noteq> {}"
proof -
  have "bij_betw id {..<n} {..<n}" by (rule bij_betw_id)
  then show ?thesis unfolding reachable_def by blast
qed

lemma reachableI: "bij_betw f {..<n} {..<n} \<Longrightarrow> matches f ps \<in> reachable n ps"
  by (auto simp: reachable_def)

lemma reachableE:
  assumes "x \<in> reachable n ps"
  obtains f where "bij_betw f {..<n} {..<n}" "x = matches f ps"
  using assms by (auto simp: reachable_def)

lemma perms_reachable:
  assumes "\<forall>(i, j) \<in> set ps. i < n"
  shows "(\<lambda>s. matches ((!) s) ps) ` set (perms [0..<n]) = reachable n ps"
proof (intro set_eqI iffI)
  fix x assume "x \<in> (\<lambda>s. matches ((!) s) ps) ` set (perms [0..<n])"
  then obtain s where s: "s \<in> set (perms [0..<n])" and x: "x = matches ((!) s) ps" by blast
  have "bij_betw ((!) s) {..<n} {..<n}"
    using perms_upt[OF s] by (intro bij_betw_nth) simp_all
  then show "x \<in> reachable n ps" unfolding x by (rule reachableI)
next
  fix x assume "x \<in> reachable n ps"
  then obtain f where f: "bij_betw f {..<n} {..<n}" and x: "x = matches f ps"
    by (rule reachableE)
  let ?s = "map f [0..<n]"
  have "distinct ?s"
    using f by (simp add: distinct_map bij_betw_def atLeast0LessThan)
  moreover have "set ?s = set [0..<n]"
    using f by (simp add: bij_betw_def atLeast0LessThan)
  ultimately have "mset ?s = mset [0..<n]"
    by (simp only: set_eq_iff_mset_eq_distinct[symmetric] distinct_upt)
  then have "?s \<in> set (perms [0..<n])" by (simp only: set_perms mem_Collect_eq)
  moreover have "matches ((!) ?s) ps = matches f ps"
    using assms by (intro matches_cong) auto
  ultimately show "x \<in> (\<lambda>s. matches ((!) s) ps) ` set (perms [0..<n])"
    unfolding x by (metis (no_types, lifting) image_eqI)
qed

lemma reachable_relabel:
  assumes h: "bij_betw h {..<n} {..<n}" and lab: "\<forall>(i, j) \<in> set ps. i < n"
  shows "reachable n (map (\<lambda>(i, j). (h i, j)) ps) = reachable n ps"
proof (intro set_eqI iffI)
  fix x assume "x \<in> reachable n (map (\<lambda>(i, j). (h i, j)) ps)"
  then obtain f where f: "bij_betw f {..<n} {..<n}"
    and x: "x = matches f (map (\<lambda>(i, j). (h i, j)) ps)"
    by (rule reachableE)
  have "bij_betw (f \<circ> h) {..<n} {..<n}" using h f by (rule bij_betw_trans)
  then show "x \<in> reachable n ps"
    unfolding x matches_relabel by (rule reachableI)
next
  fix x assume "x \<in> reachable n ps"
  then obtain g where g: "bij_betw g {..<n} {..<n}" and x: "x = matches g ps"
    by (rule reachableE)
  let ?f = "g \<circ> inv_into {..<n} h"
  have "bij_betw ?f {..<n} {..<n}"
    using bij_betw_inv_into[OF h] g by (rule bij_betw_trans)
  then have "matches ?f (map (\<lambda>(i, j). (h i, j)) ps) \<in> reachable n (map (\<lambda>(i, j). (h i, j)) ps)"
    by (rule reachableI)
  moreover have "matches (?f \<circ> h) ps = matches g ps"
  proof (rule matches_cong, clarify)
    fix i j assume "(i, j) \<in> set ps"
    with lab have "i \<in> {..<n}" by auto
    then have "inv_into {..<n} h (h i) = i"
      using h by (simp add: bij_betw_def)
    then show "(?f \<circ> h) i = g i" by simp
  qed
  ultimately show "x \<in> reachable n (map (\<lambda>(i, j). (h i, j)) ps)"
    unfolding x by (simp add: matches_relabel)
qed

lemma reachable_Suc_subset:
  assumes lab: "\<forall>(i, j) \<in> set ps. i < n"
  shows "reachable n ps \<subseteq> reachable (Suc n) ps"
proof
  fix x assume "x \<in> reachable n ps"
  then obtain f where f: "bij_betw f {..<n} {..<n}" and x: "x = matches f ps"
    by (rule reachableE)
  let ?f = "f(n := n)"
  have "bij_betw ?f {..<n} {..<n}"
    using f by (subst bij_betw_cong[of _ _ f]) auto
  then have "bij_betw ?f ({..<n} \<union> {n}) ({..<n} \<union> {?f n})"
    by (intro notIn_Un_bij_betw) simp_all
  then have "bij_betw ?f {..<Suc n} {..<Suc n}"
    by (simp add: lessThan_Suc)
  then have "matches ?f ps \<in> reachable (Suc n) ps" by (rule reachableI)
  moreover have "matches ?f ps = matches f ps"
    using lab by (intro matches_cong) auto
  ultimately show "x \<in> reachable (Suc n) ps" by (simp add: x)
qed

lemma reachable_Suc_bounded:
  assumes lab: "\<forall>(i, j) \<in> set ps. i < n \<and> j < n" and x: "x \<in> reachable (Suc n) ps"
  shows "\<exists>y \<in> reachable n ps. x \<le> y"
proof -
  from x obtain f where f: "bij_betw f {..<Suc n} {..<Suc n}" and xf: "x = matches f ps"
    by (rule reachableE)
  from f have inj: "inj_on f {..<Suc n}" and img: "f ` {..<Suc n} = {..<Suc n}"
    by (simp_all add: bij_betw_def)
  from img have "n \<in> f ` {..<Suc n}" by simp
  then obtain a where a: "a < Suc n" "f a = n" by auto
  have fn: "f n < Suc n" using img by blast
  let ?g = "f(a := f n)"
  have other: "f i < n" if "i < n" "i \<noteq> a" for i
  proof -
    have "f i < Suc n" using img that(1) by (metis imageI lessThan_iff less_Suc_eq)
    moreover have "f i \<noteq> n"
      using inj_onD[OF inj, of i a] that a by auto
    ultimately show ?thesis by simp
  qed
  have at_a: "f n < n" if "a < n"
  proof -
    have "f n \<noteq> n" using inj_onD[OF inj, of n a] a that by auto
    with fn show ?thesis by simp
  qed
  have into: "?g ` {..<n} \<subseteq> {..<n}"
    using other at_a by auto
  have "inj_on ?g {..<n}"
  proof (rule inj_onI)
    fix i k assume ik: "i \<in> {..<n}" "k \<in> {..<n}" and eq: "?g i = ?g k"
    have ne: "f k \<noteq> f n" if "k < n" for k
      using inj_onD[OF inj, of k n] that by auto
    show "i = k"
    proof (cases "i = a"; cases "k = a")
      assume "i \<noteq> a" "k \<noteq> a"
      with eq ik show ?thesis using inj_onD[OF inj, of i k] by auto
    qed (use eq ik ne in auto)
  qed
  with into have "?g ` {..<n} = {..<n}"
    by (intro endo_inj_surj) simp_all
  with \<open>inj_on ?g {..<n}\<close> have g: "bij_betw ?g {..<n} {..<n}"
    by (simp add: bij_betw_def)
  have imp: "\<forall>p \<in> set ps. (case p of (i, j) \<Rightarrow> f i = j) \<longrightarrow> (case p of (i, j) \<Rightarrow> ?g i = j)"
  proof (intro ballI impI)
    fix p assume p: "p \<in> set ps" and fp: "case p of (i, j) \<Rightarrow> f i = j"
    obtain i j where ij: "p = (i, j)" by (cases p)
    with p lab have "j < n" by auto
    moreover from fp ij have fi: "f i = j" by simp
    ultimately have "i \<noteq> a" using a by auto
    with fi show "case p of (i, j) \<Rightarrow> ?g i = j" by (simp add: ij)
  qed
  have "matches f ps \<le> matches ?g ps"
    unfolding matches_def by (rule length_filter_mono[OF imp])
  with reachableI[OF g, of ps] show ?thesis unfolding xf by blast
qed

lemma Max_reachable_Suc:
  assumes lab: "\<forall>(i, j) \<in> set ps. i < n \<and> j < n"
  shows "Max (reachable (Suc n) ps) = Max (reachable n ps)"
proof (rule antisym)
  have "Max (reachable (Suc n) ps) \<in> reachable (Suc n) ps"
    by (rule Max_in) (rule reachable_finite reachable_nonempty)+
  from reachable_Suc_bounded[OF lab this] obtain y where
    "y \<in> reachable n ps" "Max (reachable (Suc n) ps) \<le> y" by blast
  moreover from this(1) have "y \<le> Max (reachable n ps)"
    by (intro Max_ge reachable_finite)
  ultimately show "Max (reachable (Suc n) ps) \<le> Max (reachable n ps)" by simp
next
  have "reachable n ps \<subseteq> reachable (Suc n) ps"
    using lab by (intro reachable_Suc_subset) auto
  then show "Max (reachable n ps) \<le> Max (reachable (Suc n) ps)"
    by (intro Max_mono reachable_nonempty reachable_finite)
qed

lemma Max_reachable_pad:
  assumes lab: "\<forall>(i, j) \<in> set ps. i < n \<and> j < n"
  shows "Max (reachable (n + d) ps) = Max (reachable n ps)"
proof (induction d)
  case 0
  then show ?case by simp
next
  case (Suc d)
  have "\<forall>(i, j) \<in> set ps. i < n + d \<and> j < n + d" using lab by auto
  from Max_reachable_Suc[OF this] Suc show ?case by simp
qed

lemma cluster_acc_reachable:
  assumes len: "length y_pred = length y_true" and ne: "y_pred \<noteq> []"
  shows "cluster_acc y_true y_pred =
           Inr (real (Max (reachable (max (Max (set y_pred)) (Max (set y_true)) + 1)
                             (zip y_pred y_true)))
                / real (length y_pred))"
proof -
  let ?D = "max (Max (set y_pred)) (Max (set y_true)) + 1"
  let ?ps = "zip y_pred y_true"
  let ?w = "contingency ?D y_pred y_true"
  have lab: "\<forall>(i, j) \<in> set ?ps. i < ?D"
    using labels_below[OF len] by blast
  have "assigned_total ?w ` set (perms [0..<?D]) =
          int ` ((\<lambda>s. matches ((!) s) ?ps) ` set (perms [0..<?D]))"
    unfolding cluster_acc_value(2)[OF len ne] by (simp only: image_image)
  also have "\<dots> = int ` reachable ?D ?ps"
    by (simp only: perms_reachable[OF lab])
  finally have "Max (assigned_total ?w ` set (perms [0..<?D])) = Max (int ` reachable ?D ?ps)"
    by (rule arg_cong)
  also have "\<dots> = int (Max (reachable ?D ?ps))"
    by (intro mono_Max_commute[symmetric] monoI reachable_finite reachable_nonempty) simp
  finally show ?thesis
    unfolding cluster_acc_value(1)[OF len ne] by simp
qed

lemma mset_upt_bij:
  assumes "mset relabel = mset [0..<D]"
  shows "bij_betw ((!) relabel) {..<D} {..<D}"
proof -
  from assms have "relabel \<in> set (perms [0..<D])" by (simp only: set_perms mem_Collect_eq)
  from perms_upt[OF this] show ?thesis by (intro bij_betw_nth) simp_all
qed


text \<open>
  \<^bold>\<open>C8.\<close> Let \<open>D\<close> be the greatest label of \<open>y_true\<close> and \<open>y_pred\<close> plus one and let
  \<open>relabel\<close> list a permutation of the labels \<open>0, \<dots>, D - 1\<close>. Renaming every predicted
  label \<open>l\<close> to \<open>relabel ! l\<close> leaves the result of \<^verbatim>\<open>cluster_acc\<close> unchanged.
\<close>

theorem cluster_acc_relabel_invariant:
  assumes "mset relabel = mset [0..<max (Max (set y_pred)) (Max (set y_true)) + 1]"
  shows "cluster_acc y_true (map ((!) relabel) y_pred) = cluster_acc y_true y_pred"
proof (cases "length y_pred = length y_true \<and> y_pred \<noteq> []")
  case False
  then show ?thesis by (auto simp: cluster_acc_def)
next
  case True
  then have len: "length y_pred = length y_true" and ne: "y_pred \<noteq> []" by simp_all
  let ?h = "(!) relabel"
  let ?D = "max (Max (set y_pred)) (Max (set y_true)) + 1"
  let ?D' = "max (Max (set (map ?h y_pred))) (Max (set y_true)) + 1"
  let ?ps = "zip y_pred y_true"
  let ?ps' = "zip (map ?h y_pred) y_true"
  have len': "length (map ?h y_pred) = length y_true" and ne': "map ?h y_pred \<noteq> []"
    using len ne by simp_all
  have h: "bij_betw ?h {..<?D} {..<?D}" using assms by (rule mset_upt_bij)
  have lab: "\<forall>(i, j) \<in> set ?ps. i < ?D \<and> j < ?D" by (rule labels_below[OF len])
  then have lab1: "\<forall>(i, j) \<in> set ?ps. i < ?D" by blast
  have lab': "\<forall>(i, j) \<in> set ?ps'. i < ?D' \<and> j < ?D'" by (rule labels_below[OF len'])
  have ps': "?ps' = map (\<lambda>(i, j). (?h i, j)) ?ps" by (rule zip_map1)
  have "\<forall>i \<in> set y_pred. ?h i < ?D"
  proof
    fix i assume "i \<in> set y_pred"
    then have "i \<le> Max (set y_pred)" by simp
    then have "i \<in> {..<?D}" by simp
    with h have "?h i \<in> {..<?D}" unfolding bij_betw_def by blast
    then show "?h i < ?D" by simp
  qed
  then have "Max (set (map ?h y_pred)) < ?D" using ne by simp
  then have "?D' \<le> ?D" by simp
  then have D: "?D = ?D' + (?D - ?D')" by simp
  have "Max (reachable ?D' ?ps') = Max (reachable (?D' + (?D - ?D')) ?ps')"
    by (rule Max_reachable_pad[OF lab', symmetric])
  also have "\<dots> = Max (reachable ?D ?ps')" using D by simp
  also have "\<dots> = Max (reachable ?D ?ps)"
    unfolding ps' by (simp only: reachable_relabel[OF h lab1])
  finally have "Max (reachable ?D' ?ps') = Max (reachable ?D ?ps)" .
  then show ?thesis
    unfolding cluster_acc_reachable[OF len ne] cluster_acc_reachable[OF len' ne'] by simp
qed

lemma run_cluster_acc_one_cluster: "cluster_acc [0, 0] [1, 1] = Inr 1"
  by (simp add: cluster_acc_def contingency_def bump_def linear_assignment_def
      assigned_total_def Let_def upt_rec)

theorem cluster_acc_relabel_invariant_witness:
  "mset [1, 0] = mset [0..<max (Max (set [1, 1])) (Max (set [0, 0])) + 1] \<and>
   cluster_acc [0, 0] (map ((!) [1, 0]) [1, 1]) = cluster_acc [0, 0] [1, 1] \<and>
   cluster_acc [0, 0] [1, 1] = Inr 1"
proof -
  have h: "mset [1, 0] = mset [0..<max (Max (set [1, 1])) (Max (set [0, 0 :: nat])) + 1]"
    by (simp add: upt_rec)
  from cluster_acc_relabel_invariant[OF h] h run_cluster_acc_one_cluster
  show ?thesis by blast
qed

end
